theory Spec2Isabelle
  imports Complex_Main
begin

section \<open>Data model (src/types/index.ts)\<close>

text \<open>
  A JavaScript object that the code uses as a dictionary (\<open>Object.keys\<close>,
  \<open>Object.entries\<close>, \<open>obj[key]\<close>) is the list of its own properties in insertion
  order. The keys that occur in this program are the four variant names, so the
  integer-like keys that JavaScript would enumerate first do not arise.
\<close>

type_synonym 'v obj = "(string \<times> 'v) list"

definition obj_keys :: "'v obj \<Rightarrow> string list" where
  "obj_keys ob = map fst ob"

definition obj_get :: "'v obj \<Rightarrow> string \<Rightarrow> 'v option" where
  "obj_get ob k = map_of ob k"

text \<open>\<open>obj[k] = v\<close>: an existing property keeps its position, a new one is appended.\<close>

fun obj_set :: "string \<Rightarrow> 'v \<Rightarrow> 'v obj \<Rightarrow> 'v obj" where
  "obj_set k v [] = [(k, v)]"
| "obj_set k v (p # ps) = (if fst p = k then (k, v) # ps else p # obj_set k v ps)"

text \<open>
  \<open>ImageVariant\<close>: \<open>width\<close> and \<open>height\<close> are required, \<open>relativePath\<close> and \<open>url\<close> are
  optional (\<open>None\<close> is \<open>undefined\<close>). Field names carry the prefix \<open>v_\<close>, those of
  \<open>ImageMetadata\<close> the prefix \<open>m_\<close>, those of \<open>PhotoManifest\<close> the prefix \<open>p_\<close>, since
  the three types share field names.
\<close>

record ImageVariant =
  v_width :: int
  v_height :: int
  v_relativePath :: "string option"
  v_url :: "string option"

text \<open>The \<open>variants\<close> of \<open>ImageMetadata\<close>: exactly the four required fields.\<close>

record MetaVariants =
  mobile :: ImageVariant
  tablet :: ImageVariant
  desktop :: ImageVariant
  full :: ImageVariant

record ImageMetadata =
  m_originalName :: string
  m_relativePathBase :: string
  m_variants :: MetaVariants
  m_blurDataUrl :: string

text \<open>
  \<open>PhotoManifest\<close>: its \<open>variants\<close> object has the optional properties \<open>mobile\<close>,
  \<open>tablet\<close>, \<open>desktop\<close>, \<open>full\<close>; the assembler fills it key by key.
\<close>

record PhotoManifest =
  p_id :: string
  p_category :: string
  p_timeOfDay :: string
  p_blurDataUrl :: string
  p_variants :: "ImageVariant obj"
  p_url :: string
  p_width :: int
  p_height :: int

section \<open>Load-state cache (src/lib/image-cache.ts)\<close>

text \<open>
  The module-level \<open>loadedImages\<close> set is the state; it starts empty on a full page
  load. \<open>markImageLoaded\<close> returns the updated set.
\<close>

type_synonym cache = "string set"

definition loadedImages_init :: cache where
  "loadedImages_init = {}"

definition isImageLoaded :: "string \<Rightarrow> cache \<Rightarrow> bool" where
  "isImageLoaded url loadedImages = (url \<in> loadedImages)"

definition markImageLoaded :: "string \<Rightarrow> cache \<Rightarrow> cache" where
  "markImageLoaded url loadedImages = insert url loadedImages"

text \<open>A session: the URLs marked one after the other, starting from a given cache.\<close>

fun markAll :: "string list \<Rightarrow> cache \<Rightarrow> cache" where
  "markAll [] loadedImages = loadedImages"
| "markAll (u # us) loadedImages = markAll us (markImageLoaded u loadedImages)"

section \<open>Responsive variant selector (lib/gallery)\<close>

definition BREAKPOINTS_mobile :: real where "BREAKPOINTS_mobile = 640"
definition BREAKPOINTS_tablet :: real where "BREAKPOINTS_tablet = 1280"
definition BREAKPOINTS_desktop :: real where "BREAKPOINTS_desktop = 1920"

record VariantRef =
  r_url :: string
  r_width :: int
  r_height :: int

text \<open>
  \<open>photo.variants.k?.url\<close> as a condition: the variant exists, its \<open>url\<close> is defined
  and is not the empty string. The result is that url.
\<close>

definition truthy_url :: "ImageVariant option \<Rightarrow> string option" where
  "truthy_url vo =
     (case vo of
        None \<Rightarrow> None
      | Some v \<Rightarrow> (case v_url v of None \<Rightarrow> None | Some u \<Rightarrow> if u = [] then None else Some u))"

definition variant_ref :: "ImageVariant \<Rightarrow> string \<Rightarrow> VariantRef" where
  "variant_ref v u = \<lparr>r_url = u, r_width = v_width v, r_height = v_height v\<rparr>"

definition top_level_ref :: "PhotoManifest \<Rightarrow> VariantRef" where
  "top_level_ref photo = \<lparr>r_url = p_url photo, r_width = p_width photo, r_height = p_height photo\<rparr>"

text \<open>
  A guarded branch \<open>photo.variants.k?.url\<close> with its \<open>return\<close>: the reference built
  from the variant under key \<open>k\<close>, when that variant has a truthy url.
\<close>

definition pick :: "PhotoManifest \<Rightarrow> string \<Rightarrow> VariantRef option" where
  "pick photo k =
     (case obj_get (p_variants photo) k of
        None \<Rightarrow> None
      | Some v \<Rightarrow> (case truthy_url (Some v) of None \<Rightarrow> None | Some u \<Rightarrow> Some (variant_ref v u)))"

definition getResponsiveVariant :: "PhotoManifest \<Rightarrow> real \<Rightarrow> VariantRef" where
  "getResponsiveVariant photo width =
     (case (if width \<le> BREAKPOINTS_tablet then pick photo ''tablet'' else None) of
        Some r \<Rightarrow> r
      | None \<Rightarrow>
         (case (if width \<le> BREAKPOINTS_desktop then pick photo ''desktop'' else None) of
            Some r \<Rightarrow> r
          | None \<Rightarrow>
             (case pick photo ''full'' of
                Some r \<Rightarrow> r
              | None \<Rightarrow> top_level_ref photo)))"

text \<open>
  The selection policy in the words of the specification: the first variant of a
  preference list that is present (with a url) wins; if none is, the entry's top-level
  url, width and height are returned.
\<close>

fun select_by_preference :: "PhotoManifest \<Rightarrow> string list \<Rightarrow> VariantRef" where
  "select_by_preference photo [] = top_level_ref photo"
| "select_by_preference photo (k # ks) =
     (case pick photo k of Some r \<Rightarrow> r | None \<Rightarrow> select_by_preference photo ks)"

section \<open>Manifest reader (lib/gallery.server)\<close>

text \<open>
  \<open>GetImagesOptions\<close>: both fields are optional and nullable; \<open>None\<close> stands for
  \<open>undefined\<close> and \<open>null\<close>. The \<open>options\<close> argument itself is optional too.
\<close>

record GetImagesOptions =
  o_category :: "string option"
  o_id :: "string option"

text \<open>The result type \<open>PhotoManifest[] | PhotoManifest | null\<close>.\<close>

datatype lookup = Photos "PhotoManifest list" | Photo PhotoManifest | Null

text \<open>
  The file system is the content of \<open>public/image-manifest.json\<close>, \<open>None\<close> when
  \<open>readFile\<close> rejects (the file is missing or unreadable). \<open>JSON.parse\<close> is a
  parameter: it yields the parsed manifest, or \<open>None\<close> when it throws. Both failures
  end in the \<open>catch\<close> branch. The code takes the parsed value for a
  \<open>PhotoManifest[]\<close> without a check, and so does the model.
\<close>

definition readManifest :: "(string \<Rightarrow> PhotoManifest list option) \<Rightarrow> string option \<Rightarrow> PhotoManifest list" where
  "readManifest JSON_parse file =
     (case file of
        None \<Rightarrow> []
      | Some data \<Rightarrow> (case JSON_parse data of None \<Rightarrow> [] | Some manifest \<Rightarrow> manifest))"

text \<open>An optional string as a condition: defined, not null and not empty.\<close>

definition truthy :: "string option \<Rightarrow> bool" where
  "truthy so = (case so of None \<Rightarrow> False | Some s \<Rightarrow> s \<noteq> [])"

definition getImages ::
  "(string \<Rightarrow> PhotoManifest list option) \<Rightarrow> string option \<Rightarrow> GetImagesOptions option \<Rightarrow> lookup" where
  "getImages JSON_parse file options =
     (let manifest = readManifest JSON_parse file;
          opt_id = (case options of None \<Rightarrow> None | Some opts \<Rightarrow> o_id opts);
          opt_category = (case options of None \<Rightarrow> None | Some opts \<Rightarrow> o_category opts)
      in if truthy opt_id
         then (case find (\<lambda>photo. Some (p_id photo) = opt_id) manifest of
                 Some photo \<Rightarrow> Photo photo
               | None \<Rightarrow> Null)
         else if truthy opt_category
         then Photos (filter (\<lambda>photo. Some (p_category photo) = opt_category) manifest)
         else Photos manifest)"

definition getImageById ::
  "(string \<Rightarrow> PhotoManifest list option) \<Rightarrow> string option \<Rightarrow> string \<Rightarrow> lookup" where
  "getImageById JSON_parse file ident =
     getImages JSON_parse file (Some \<lparr>o_category = None, o_id = Some ident\<rparr>)"

definition getImagesByCategory ::
  "(string \<Rightarrow> PhotoManifest list option) \<Rightarrow> string option \<Rightarrow> string \<Rightarrow> lookup" where
  "getImagesByCategory JSON_parse file category =
     getImages JSON_parse file (Some \<lparr>o_category = Some category, o_id = None\<rparr>)"

definition getAllImages ::
  "(string \<Rightarrow> PhotoManifest list option) \<Rightarrow> string option \<Rightarrow> lookup" where
  "getAllImages JSON_parse file = getImages JSON_parse file None"

section \<open>Upload and manifest generator (src/scripts/upload-images.ts)\<close>

datatype error = TypeError

text \<open>
  \<open>s.split(path.sep)\<close> for the one-character separator \<open>path.sep\<close>: the pieces
  between the separators, so the empty string splits into one empty piece.
\<close>

fun split :: "char \<Rightarrow> string \<Rightarrow> string list" where
  "split sep [] = ['''']"
| "split sep (c # cs) =
     (if c = sep then [] # split sep cs
      else (case split sep cs of [] \<Rightarrow> [c # []] | piece # pieces \<Rightarrow> (c # piece) # pieces))"

text \<open>\<open>{url, key}\<close> as recorded for one successful upload.\<close>

record Uploaded =
  u_url :: string
  u_key :: string

text \<open>
  \<open>uploadedUrls\<close>: \<open>Record<number, Record<string, {url, key}>>\<close>; the outer record is
  only read at a given index, the inner one is also enumerated.
\<close>

type_synonym uploads = "nat \<Rightarrow> Uploaded obj option"

text \<open>
  \<open>Object.entries(meta.variants)\<close>: the four properties in the order in which
  optimize-images.ts writes them (the order of \<open>SIZES\<close>).
\<close>

definition entries :: "MetaVariants \<Rightarrow> ImageVariant obj" where
  "entries mv = [(''mobile'', mobile mv), (''tablet'', tablet mv), (''desktop'', desktop mv), (''full'', full mv)]"

text \<open>
  The loop over \<open>Object.keys(meta.variants)\<close> that fills \<open>manifestVariants\<close>. Reading
  \<open>width\<close> of a missing variant throws.
\<close>

fun fillVariants ::
  "string list \<Rightarrow> MetaVariants \<Rightarrow> Uploaded obj \<Rightarrow> ImageVariant obj \<Rightarrow> error + ImageVariant obj" where
  "fillVariants [] mv uploadedVariants manifestVariants = Inr manifestVariants"
| "fillVariants (sizeName # rest) mv uploadedVariants manifestVariants =
     (case obj_get uploadedVariants sizeName of
        None \<Rightarrow> fillVariants rest mv uploadedVariants manifestVariants
      | Some up \<Rightarrow>
         (case obj_get (entries mv) sizeName of
            None \<Rightarrow> Inl TypeError
          | Some variant \<Rightarrow>
             fillVariants rest mv uploadedVariants
               (obj_set sizeName
                  \<lparr>v_width = v_width variant, v_height = v_height variant,
                   v_relativePath = None, v_url = Some (u_url up)\<rparr>
                  manifestVariants)))"

text \<open>The default key: desktop, else tablet, else the first key of the record, if any.\<close>

definition defaultVariantKey :: "Uploaded obj \<Rightarrow> string option" where
  "defaultVariantKey uploadedVariants =
     (if obj_get uploadedVariants ''desktop'' \<noteq> None then Some ''desktop''
      else if obj_get uploadedVariants ''tablet'' \<noteq> None then Some ''tablet''
      else (case obj_keys uploadedVariants of [] \<Rightarrow> None | k # ks \<Rightarrow> Some k))"

text \<open>
  The body of the \<open>forEach\<close> callback that constructs the manifest, for one photo:
  \<open>Inr None\<close> when it pushes nothing, \<open>Inr (Some entry)\<close> when it pushes \<open>entry\<close>,
  \<open>Inl\<close> when it throws. \<open>sep\<close> is \<open>path.sep\<close>.
\<close>

definition manifestEntry :: "char \<Rightarrow> ImageMetadata \<Rightarrow> Uploaded obj option \<Rightarrow> error + PhotoManifest option" where
  "manifestEntry sep meta uploaded =
     (case uploaded of
        None \<Rightarrow> Inr None
      | Some uploadedVariants \<Rightarrow>
         (let parts = split sep (m_relativePathBase meta);
              category = (if length parts \<ge> 1 then parts ! 0 else ''Uncategorized'');
              timeOfDay = (if length parts \<ge> 2 then parts ! 1 else ''Day'')
          in case fillVariants (obj_keys (entries (m_variants meta))) (m_variants meta) uploadedVariants [] of
               Inl e \<Rightarrow> Inl e
             | Inr manifestVariants \<Rightarrow>
                (case defaultVariantKey uploadedVariants of
                   None \<Rightarrow> Inr None
                 | Some k \<Rightarrow>
                    if k = [] then Inr None
                    else (case obj_get uploadedVariants k of
                            None \<Rightarrow> Inl TypeError
                          | Some up \<Rightarrow>
                             (case obj_get (entries (m_variants meta)) k of
                                None \<Rightarrow> Inl TypeError
                              | Some variant \<Rightarrow>
                                 Inr (Some \<lparr>p_id = u_key up, p_category = category,
                                            p_timeOfDay = timeOfDay,
                                            p_blurDataUrl = m_blurDataUrl meta,
                                            p_variants = manifestVariants,
                                            p_url = u_url up,
                                            p_width = v_width variant,
                                            p_height = v_height variant\<rparr>))))))"

text \<open>
  \<open>metadataList.forEach((meta, idx) => ...)\<close>, from index \<open>idx\<close> on: the entries are
  pushed onto \<open>manifest\<close> in the order of the list; an exception ends the run.
\<close>

fun constructManifest_from ::
  "char \<Rightarrow> nat \<Rightarrow> ImageMetadata list \<Rightarrow> uploads \<Rightarrow> PhotoManifest list \<Rightarrow> error + PhotoManifest list" where
  "constructManifest_from sep idx [] uploadedUrls manifest = Inr manifest"
| "constructManifest_from sep idx (meta # rest) uploadedUrls manifest =
     (case manifestEntry sep meta (uploadedUrls idx) of
        Inl e \<Rightarrow> Inl e
      | Inr None \<Rightarrow> constructManifest_from sep (Suc idx) rest uploadedUrls manifest
      | Inr (Some entry) \<Rightarrow> constructManifest_from sep (Suc idx) rest uploadedUrls (manifest @ [entry]))"

definition constructManifest :: "char \<Rightarrow> ImageMetadata list \<Rightarrow> uploads \<Rightarrow> error + PhotoManifest list" where
  "constructManifest sep metadataList uploadedUrls = constructManifest_from sep 0 metadataList uploadedUrls []"

text \<open>What the callback pushes for the photo at index \<open>i\<close>: one entry, or nothing.\<close>

definition pushed :: "char \<Rightarrow> uploads \<Rightarrow> nat \<times> ImageMetadata \<Rightarrow> PhotoManifest list" where
  "pushed sep uploadedUrls im =
     (case manifestEntry sep (snd im) (uploadedUrls (fst im)) of
        Inr (Some entry) \<Rightarrow> [entry]
      | _ \<Rightarrow> [])"

definition hasUploads :: "uploads \<Rightarrow> nat \<times> ImageMetadata \<Rightarrow> bool" where
  "hasUploads uploadedUrls im = (uploadedUrls (fst im) \<noteq> None)"

definition sizeNames :: "string list" where
  "sizeNames = [''mobile'', ''tablet'', ''desktop'', ''full'']"

text \<open>
  The default choice in the words of the specification: the first available variant
  in the order desktop, tablet, then the remaining keys of the upload record in
  insertion order.
\<close>

definition preference_order :: "Uploaded obj \<Rightarrow> string list" where
  "preference_order uploadedVariants =
     [''desktop'', ''tablet'']
       @ filter (\<lambda>k. k \<noteq> ''desktop'' \<and> k \<noteq> ''tablet'') (obj_keys uploadedVariants)"

definition first_available :: "Uploaded obj \<Rightarrow> string option" where
  "first_available uploadedVariants =
     find (\<lambda>k. obj_get uploadedVariants k \<noteq> None) (preference_order uploadedVariants)"

subsection \<open>The upload queue and the batch loop\<close>

text \<open>A \<open>File\<close>: the bytes read from disk and the base name of the path.\<close>

record File =
  f_bytes :: string
  f_name :: string

record Job =
  j_path :: string
  j_file :: File
  j_metaIndex :: nat
  j_sizeName :: string

text \<open>
  What the script uses of Node: \<open>path.join\<close>, \<open>path.basename\<close>, \<open>fs.existsSync\<close> and
  \<open>fs.readFileSync\<close>. They are parameters of the model.
\<close>

record node =
  path_join :: "string \<Rightarrow> string \<Rightarrow> string"
  path_basename :: "string \<Rightarrow> string"
  fs_existsSync :: "string \<Rightarrow> bool"
  fs_readFileSync :: "string \<Rightarrow> string"

text \<open>
  The inner \<open>forEach\<close> over \<open>Object.entries(meta.variants)\<close>: a job for every variant
  whose file exists. \<open>path.join\<close> throws on an undefined \<open>relativePath\<close>.
\<close>

fun queueVariants :: "node \<Rightarrow> string \<Rightarrow> nat \<Rightarrow> ImageVariant obj \<Rightarrow> Job list \<Rightarrow> error + Job list" where
  "queueVariants nd inputDir idx [] uploadQueue = Inr uploadQueue"
| "queueVariants nd inputDir idx ((sizeName, variant) # rest) uploadQueue =
     (case v_relativePath variant of
        None \<Rightarrow> Inl TypeError
      | Some rel \<Rightarrow>
         (let fullPath = path_join nd inputDir rel
          in if fs_existsSync nd fullPath
             then queueVariants nd inputDir idx rest
                    (uploadQueue @
                       [\<lparr>j_path = fullPath,
                         j_file = \<lparr>f_bytes = fs_readFileSync nd fullPath, f_name = path_basename nd fullPath\<rparr>,
                         j_metaIndex = idx, j_sizeName = sizeName\<rparr>])
             else queueVariants nd inputDir idx rest uploadQueue))"

text \<open>The outer \<open>metadataList.forEach((meta, idx) => ...)\<close>, from index \<open>idx\<close> on.\<close>

fun buildQueue_from :: "node \<Rightarrow> string \<Rightarrow> nat \<Rightarrow> ImageMetadata list \<Rightarrow> Job list \<Rightarrow> error + Job list" where
  "buildQueue_from nd inputDir idx [] uploadQueue = Inr uploadQueue"
| "buildQueue_from nd inputDir idx (meta # rest) uploadQueue =
     (case queueVariants nd inputDir idx (entries (m_variants meta)) uploadQueue of
        Inl e \<Rightarrow> Inl e
      | Inr uploadQueue' \<Rightarrow> buildQueue_from nd inputDir (Suc idx) rest uploadQueue')"

definition buildQueue :: "node \<Rightarrow> string \<Rightarrow> ImageMetadata list \<Rightarrow> error + Job list" where
  "buildQueue nd inputDir metadataList = buildQueue_from nd inputDir 0 metadataList []"

text \<open>
  The console lines of the batch loop: the announcement of a batch (its number and
  its number of files), one line per response, and the line of the \<open>catch\<close> branch.
\<close>

datatype log =
  Uploading nat nat
| UploadedLine string string
| FailedLine string
| BatchFailedLine

text \<open>
  The state of the batch loop: \<open>uploadedUrls\<close>, the console, and the state of the
  remote service. The service is a parameter \<open>uploadFiles\<close>: called with its state and
  the files of a batch, it returns its new state and either \<open>None\<close> (the call rejects)
  or one response per file, \<open>Some {url, key}\<close> for \<open>res.data\<close> and \<open>None\<close> for an error.
\<close>

record 'svc run =
  uploadedUrls :: uploads
  console :: "log list"
  service :: 'svc

type_synonym 'svc uploader = "'svc \<Rightarrow> File list \<Rightarrow> Uploaded option list option \<times> 'svc"

definition BATCH_SIZE :: nat where
  "BATCH_SIZE = 5"

definition recordResponse :: "Job \<Rightarrow> Uploaded option \<Rightarrow> 'svc run \<Rightarrow> 'svc run" where
  "recordResponse job res st =
     (case res of
        Some d \<Rightarrow>
          st\<lparr>console := console st @ [UploadedLine (j_sizeName job) (u_url d)],
             uploadedUrls := (uploadedUrls st)
               (j_metaIndex job \<mapsto>
                  obj_set (j_sizeName job) \<lparr>u_url = u_url d, u_key = u_key d\<rparr>
                    (case uploadedUrls st (j_metaIndex job) of None \<Rightarrow> [] | Some r \<Rightarrow> r))\<rparr>
      | None \<Rightarrow> st\<lparr>console := console st @ [FailedLine (j_path job)]\<rparr>)"

text \<open>
  \<open>responses.forEach((res, idx) => ...)\<close> with \<open>job = batch[idx]\<close>: a response beyond
  the end of the batch has no job, and reading the job's fields throws. The result
  says whether it threw, and gives the state reached.
\<close>

fun handleResponses :: "Job list \<Rightarrow> Uploaded option list \<Rightarrow> 'svc run \<Rightarrow> bool \<times> 'svc run" where
  "handleResponses batch [] st = (False, st)"
| "handleResponses [] (res # responses) st = (True, st)"
| "handleResponses (job # batch) (res # responses) st =
     handleResponses batch responses (recordResponse job res st)"

text \<open>One turn of the loop body, for the batch sliced at index \<open>i\<close>.\<close>

definition uploadBatch :: "'svc uploader \<Rightarrow> nat \<Rightarrow> Job list \<Rightarrow> 'svc run \<Rightarrow> 'svc run" where
  "uploadBatch uploadFiles i batch st =
     (let st1 = st\<lparr>console := console st @ [Uploading (i div BATCH_SIZE + 1) (length batch)]\<rparr>;
          (outcome, svc') = uploadFiles (service st1) (map j_file batch);
          st2 = st1\<lparr>service := svc'\<rparr>
      in case outcome of
           None \<Rightarrow> st2\<lparr>console := console st2 @ [BatchFailedLine]\<rparr>
         | Some responses \<Rightarrow>
            (case handleResponses batch responses st2 of
               (True, st3) \<Rightarrow> st3\<lparr>console := console st3 @ [BatchFailedLine]\<rparr>
             | (False, st3) \<Rightarrow> st3))"

text \<open>\<open>uploadQueue.slice(i, j)\<close> for \<open>i \<le> j\<close>.\<close>

definition slice :: "nat \<Rightarrow> nat \<Rightarrow> 'a list \<Rightarrow> 'a list" where
  "slice i j xs = take (j - i) (drop i xs)"

text \<open>\<open>for (let i = 0; i < uploadQueue.length; i += BATCH_SIZE)\<close>, from \<open>i\<close> on.\<close>

function uploadLoop :: "'svc uploader \<Rightarrow> nat \<Rightarrow> Job list \<Rightarrow> 'svc run \<Rightarrow> 'svc run" where
  "uploadLoop uploadFiles i uploadQueue st =
     (if i < length uploadQueue
      then uploadLoop uploadFiles (i + BATCH_SIZE) uploadQueue
             (uploadBatch uploadFiles i (slice i (i + BATCH_SIZE) uploadQueue) st)
      else st)"
  by pat_completeness auto
termination
  by (relation "measure (\<lambda>(uploadFiles, i, uploadQueue, st). length uploadQueue - i)")
     (auto simp: BATCH_SIZE_def)

declare uploadLoop.simps [simp del]

definition uploadAll :: "'svc uploader \<Rightarrow> Job list \<Rightarrow> 'svc \<Rightarrow> 'svc run" where
  "uploadAll uploadFiles uploadQueue svc =
     uploadLoop uploadFiles 0 uploadQueue \<lparr>uploadedUrls = Map.empty, console = [], service = svc\<rparr>"

text \<open>
  \<open>main\<close>: the queue, the batch loop, the manifest. The result is the manifest that
  is written, or the exception that ends the run before anything is written.
\<close>

definition main ::
  "node \<Rightarrow> char \<Rightarrow> 'svc uploader \<Rightarrow> 'svc \<Rightarrow> string \<Rightarrow> ImageMetadata list \<Rightarrow> error + PhotoManifest list" where
  "main nd sep uploadFiles svc inputDir metadataList =
     (case buildQueue nd inputDir metadataList of
        Inl e \<Rightarrow> Inl e
      | Inr uploadQueue \<Rightarrow>
          constructManifest sep metadataList (uploadedUrls (uploadAll uploadFiles uploadQueue svc)))"

text \<open>
  The batches in the words of the specification: the queue cut into consecutive
  pieces of \<open>BATCH_SIZE\<close> tasks, the last one possibly shorter.
\<close>

definition batches :: "'a list \<Rightarrow> 'a list list" where
  "batches q =
     map (\<lambda>k. take BATCH_SIZE (drop (k * BATCH_SIZE) q))
       [0 ..< (length q + BATCH_SIZE - 1) div BATCH_SIZE]"

text \<open>Running the batches one after the other: each starts in the state the previous one left.\<close>

fun runBatches :: "'svc uploader \<Rightarrow> nat \<Rightarrow> Job list list \<Rightarrow> 'svc run \<Rightarrow> 'svc run" where
  "runBatches uploadFiles k [] st = st"
| "runBatches uploadFiles k (batch # rest) st =
     runBatches uploadFiles (Suc k) rest (uploadBatch uploadFiles (k * BATCH_SIZE) batch st)"

text \<open>
  Observing the calls: the service \<open>logged uploadFiles\<close> behaves as \<open>uploadFiles\<close> and
  keeps, beside the state of \<open>uploadFiles\<close>, the list of the file lists it was called
  with, in the order of the calls.
\<close>

definition logged :: "'svc uploader \<Rightarrow> ('svc \<times> File list list) uploader" where
  "logged uploadFiles st files =
     (case uploadFiles (fst st) files of (outcome, svc') \<Rightarrow> (outcome, (svc', snd st @ [files])))"

text \<open>
  Sequencing in the words of the specification. A task settles when its response is
  handled, as a success or as a failure. \<open>settlements\<close> lists the tasks with their
  responses in the order in which they settle when the batches are uploaded one after
  the other, the call for a batch being made in the state the service reached with
  the previous call; a rejected call settles no task. \<open>expectedConsole\<close> is the
  console of such a run: for each batch its announcement, then one line per settled
  task (or the line of the \<open>catch\<close> branch), then the next batch.
\<close>

fun settlements :: "'svc uploader \<Rightarrow> Job list list \<Rightarrow> 'svc \<Rightarrow> (Job \<times> Uploaded option) list" where
  "settlements uploadFiles [] svc = []"
| "settlements uploadFiles (batch # rest) svc =
     (case uploadFiles svc (map j_file batch) of
        (None, svc') \<Rightarrow> settlements uploadFiles rest svc'
      | (Some responses, svc') \<Rightarrow> zip batch responses @ settlements uploadFiles rest svc')"

definition settleLine :: "Job \<times> Uploaded option \<Rightarrow> log" where
  "settleLine jr =
     (case snd jr of
        Some d \<Rightarrow> UploadedLine (j_sizeName (fst jr)) (u_url d)
      | None \<Rightarrow> FailedLine (j_path (fst jr)))"

definition settleLines :: "Job list \<Rightarrow> Uploaded option list option \<Rightarrow> log list" where
  "settleLines batch outcome =
     (case outcome of
        None \<Rightarrow> [BatchFailedLine]
      | Some responses \<Rightarrow>
          map settleLine (zip batch responses)
            @ (if length batch < length responses then [BatchFailedLine] else []))"

fun expectedConsole :: "'svc uploader \<Rightarrow> nat \<Rightarrow> Job list list \<Rightarrow> 'svc \<Rightarrow> log list" where
  "expectedConsole uploadFiles k [] svc = []"
| "expectedConsole uploadFiles k (batch # rest) svc =
     (case uploadFiles svc (map j_file batch) of
        (outcome, svc') \<Rightarrow>
          Uploading (k + 1) (length batch) # settleLines batch outcome
            @ expectedConsole uploadFiles (Suc k) rest svc')"

text \<open>Recording the settled tasks one after the other.\<close>

definition recordAll :: "(Job \<times> Uploaded option) list \<Rightarrow> 'svc run \<Rightarrow> 'svc run" where
  "recordAll settled st = fold (\<lambda>jr. recordResponse (fst jr) (snd jr)) settled st"

text \<open>
  What holds of the upload record when the batch loop is done: every photo that has
  a record has at least one upload in it, and only under variant names.
\<close>

definition recordsOk :: "uploads \<Rightarrow> bool" where
  "recordsOk up = (\<forall>i ups. up i = Some ups \<longrightarrow> ups \<noteq> [] \<and> set (obj_keys ups) \<subseteq> set sizeNames)"

section \<open>Variant generator (src/scripts/optimize-images.ts)\<close>

definition SIZES :: "(string \<times> int) list" where
  "SIZES = [(''mobile'', 640), (''tablet'', 1280), (''desktop'', 1920), (''full'', 3840)]"

text \<open>
  The image library \<open>sharp\<close> is not part of the repository; what the script calls is
  a parameter of the model. \<open>sh_resize width withoutEnlargement input\<close> is
  \<open>sharp(input).resize({width, withoutEnlargement}).webp({quality: 100})\<close>, the image
  that \<open>toFile\<close> writes, or \<open>None\<close> when the call rejects; \<open>sh_width\<close> and \<open>sh_height\<close>
  are the \<open>width\<close> and \<open>height\<close> of \<open>metadata()\<close>, which may be undefined.
\<close>

record 'img sharp =
  sh_resize :: "int \<Rightarrow> bool \<Rightarrow> 'img \<Rightarrow> 'img option"
  sh_width :: "'img \<Rightarrow> int option"
  sh_height :: "'img \<Rightarrow> int option"

text \<open>\<open>meta.width || 0\<close>: undefined and zero both give zero.\<close>

definition or0 :: "int option \<Rightarrow> int" where
  "or0 n = (case n of None \<Rightarrow> 0 | Some w \<Rightarrow> if w = 0 then 0 else w)"

text \<open>
  The \<open>for\<close> loop of \<open>processSingleFile\<close> over \<open>Object.entries(SIZES)\<close>. The state is
  the output directory (the files written, by path) and the \<open>variants\<close> object that
  becomes the \<open>variants\<close> of the metadata record; an exception ends the loop with
  the files written so far and no variants (the \<open>catch\<close> branch then records nothing
  for the file). \<open>join\<close> is \<open>path.join\<close>; \<open>outputSubDir\<close>, \<open>relativePath\<close> and
  \<open>fileNameNoExt\<close> are the values computed at the start of \<open>processSingleFile\<close>.
\<close>

fun generateVariants ::
  "'img sharp \<Rightarrow> (string \<Rightarrow> string \<Rightarrow> string) \<Rightarrow> 'img \<Rightarrow> string \<Rightarrow> string \<Rightarrow> string
   \<Rightarrow> (string \<times> int) list \<Rightarrow> (string \<rightharpoonup> 'img) \<Rightarrow> ImageVariant obj
   \<Rightarrow> (string \<rightharpoonup> 'img) \<times> ImageVariant obj option" where
  "generateVariants lib join inputBuffer outputSubDir relativePath fileNameNoExt [] files variants =
     (files, Some variants)"
| "generateVariants lib join inputBuffer outputSubDir relativePath fileNameNoExt ((sizeName, width) # rest) files variants =
     (let outFileName = fileNameNoExt @ ''-'' @ sizeName @ ''.webp'';
          outputPath = join outputSubDir outFileName
      in case sh_resize lib width True inputBuffer of
           None \<Rightarrow> (files, None)
         | Some out \<Rightarrow>
            (let files' = files(outputPath \<mapsto> out)
             in case files' outputPath of
                  None \<Rightarrow> (files', None)
                | Some written \<Rightarrow>
                   generateVariants lib join inputBuffer outputSubDir relativePath fileNameNoExt rest files'
                     (obj_set sizeName
                        \<lparr>v_width = or0 (sh_width lib written), v_height = or0 (sh_height lib written),
                         v_relativePath = Some (join relativePath outFileName), v_url = None\<rparr>
                        variants)))"

text \<open>
  An image library for examples: an image is its width and height; resizing to a
  width keeps the image when enlargement is excluded and the image is not wider, and
  scales it otherwise (the height rounded to the nearest pixel).
\<close>

definition ex_sharp :: "(int \<times> int) sharp" where
  "ex_sharp =
     \<lparr>sh_resize = (\<lambda>width withoutEnlargement img.
         if withoutEnlargement \<and> fst img \<le> width then Some img
         else Some (width, (2 * snd img * width + fst img) div (2 * fst img))),
      sh_width = (\<lambda>img. Some (fst img)),
      sh_height = (\<lambda>img. Some (snd img))\<rparr>"

section \<open>Example data\<close>

definition ex_manifest :: "PhotoManifest list" where
  "ex_manifest =
     [\<lparr>p_id = ''k1'', p_category = ''Ceremony'', p_timeOfDay = ''Day'', p_blurDataUrl = ''data:'',
       p_variants = [], p_url = ''u1'', p_width = 1920, p_height = 1280\<rparr>,
      \<lparr>p_id = ''k2'', p_category = ''Reception'', p_timeOfDay = ''Evening'', p_blurDataUrl = ''data:'',
       p_variants = [], p_url = ''u2'', p_width = 1920, p_height = 1280\<rparr>]"

text \<open>A 3000 by 2000 source: the four variants as optimize-images.ts records them.\<close>

definition ex_variants :: "string \<Rightarrow> MetaVariants" where
  "ex_variants dir =
     \<lparr>mobile = \<lparr>v_width = 640, v_height = 427, v_relativePath = Some (dir @ ''a-mobile.webp''), v_url = None\<rparr>,
      tablet = \<lparr>v_width = 1280, v_height = 853, v_relativePath = Some (dir @ ''a-tablet.webp''), v_url = None\<rparr>,
      desktop = \<lparr>v_width = 1920, v_height = 1280, v_relativePath = Some (dir @ ''a-desktop.webp''), v_url = None\<rparr>,
      full = \<lparr>v_width = 3000, v_height = 2000, v_relativePath = Some (dir @ ''a-full.webp''), v_url = None\<rparr>\<rparr>"

definition ex_meta :: "string \<Rightarrow> ImageMetadata" where
  "ex_meta base =
     \<lparr>m_originalName = ''a.jpg'', m_relativePathBase = base,
      m_variants = ex_variants (if base = [] then [] else base @ ''/''), m_blurDataUrl = ''data:image/jpeg;base64,AAAA''\<rparr>"

text \<open>Upload records: the tablet variant only; mobile and full only; a desktop upload with an empty url.\<close>

definition ex_tablet_only :: "Uploaded obj" where
  "ex_tablet_only = [(''tablet'', \<lparr>u_url = ''https://cdn/t'', u_key = ''kt''\<rparr>)]"

definition ex_mobile_full :: "Uploaded obj" where
  "ex_mobile_full =
     [(''mobile'', \<lparr>u_url = ''https://cdn/m'', u_key = ''km''\<rparr>),
      (''full'', \<lparr>u_url = ''https://cdn/f'', u_key = ''kf''\<rparr>)]"

definition ex_desktop_only :: "Uploaded obj" where
  "ex_desktop_only = [(''desktop'', \<lparr>u_url = ''https://cdn/d'', u_key = ''kd''\<rparr>)]"

text \<open>The upload state in which only the second photo has a record.\<close>

definition ex_uploads :: uploads where
  "ex_uploads = Map.empty(1 \<mapsto> ex_tablet_only)"

text \<open>A queue of twelve jobs (three photos, four variants each) and a service that numbers its calls.\<close>

definition ex_job :: "nat \<times> string \<Rightarrow> Job" where
  "ex_job ik =
     \<lparr>j_path = ''in/'' @ snd ik, j_file = \<lparr>f_bytes = ''bytes'', f_name = snd ik\<rparr>,
      j_metaIndex = fst ik, j_sizeName = snd ik\<rparr>"

definition ex_queue :: "Job list" where
  "ex_queue = map ex_job (List.product [0, 1, 2] sizeNames)"

definition ex_service :: "nat uploader" where
  "ex_service n files =
     (if n = 1 then None
      else Some (map (\<lambda>f. Some \<lparr>u_url = ''https://cdn/'' @ f_name f, u_key = ''key-'' @ f_name f\<rparr>) files),
      Suc n)"

section \<open>Theorems\<close>

lemma markAll_eq: "markAll us c = set us \<union> c"
  by (induction us arbitrary: c) (auto simp: markImageLoaded_def)

text \<open>
  C7. Marking a URL twice leaves the cache as marking it once does; a URL that was
  never marked since the empty start is not loaded; and once marked, a URL stays
  loaded whatever is marked afterwards.
\<close>

theorem cache_idempotent_membership:
  "markImageLoaded u (markImageLoaded u c) = markImageLoaded u c
   \<and> (u \<notin> set us \<longrightarrow> \<not> isImageLoaded u (markAll us loadedImages_init))
   \<and> isImageLoaded u (markAll later (markImageLoaded u c))"
  by (auto simp: markAll_eq markImageLoaded_def isImageLoaded_def loadedImages_init_def)

theorem cache_idempotent_membership_witness:
  "markImageLoaded ''a.webp'' (markImageLoaded ''a.webp'' {''b.webp''})
     = markImageLoaded ''a.webp'' {''b.webp''}
   \<and> \<not> isImageLoaded ''a.webp'' (markAll [''b.webp'', ''c.webp''] loadedImages_init)
   \<and> isImageLoaded ''a.webp'' (markAll [''c.webp''] (markImageLoaded ''a.webp'' {''b.webp''}))"
  using cache_idempotent_membership [of "''a.webp''" "{''b.webp''}" "[''b.webp'', ''c.webp'']" "[''c.webp'']"]
  by simp

text \<open>
  C1 (as amended). The selector is a total function. For a viewport width up to the
  tablet breakpoint (1280) it returns the first present variant in the order tablet,
  desktop, full, and else the top-level url, width and height. Above the desktop
  breakpoint (1920) it returns the full variant if present and else the top-level
  url, width and height: the desktop variant is not consulted there. Between the two
  breakpoints the order is desktop, full, top-level. A variant counts as present when
  it has a non-empty url, and a result taken from a variant has that non-empty url.
\<close>

theorem selector_policy:
  "(w \<le> 1280 \<longrightarrow>
      getResponsiveVariant photo w = select_by_preference photo [''tablet'', ''desktop'', ''full''])
   \<and> (1920 < w \<longrightarrow> getResponsiveVariant photo w = select_by_preference photo [''full''])
   \<and> (1280 < w \<and> w \<le> 1920 \<longrightarrow>
      getResponsiveVariant photo w = select_by_preference photo [''desktop'', ''full''])
   \<and> (getResponsiveVariant photo w = top_level_ref photo
      \<or> (\<exists>k v. k \<in> {''tablet'', ''desktop'', ''full''} \<and> obj_get (p_variants photo) k = Some v
            \<and> v_url v = Some (r_url (getResponsiveVariant photo w))
            \<and> r_url (getResponsiveVariant photo w) \<noteq> []
            \<and> r_width (getResponsiveVariant photo w) = v_width v
            \<and> r_height (getResponsiveVariant photo w) = v_height v))"
proof -
  have usable: "pick photo k = Some r \<Longrightarrow>
      \<exists>v. obj_get (p_variants photo) k = Some v \<and> v_url v = Some (r_url r) \<and> r_url r \<noteq> []
        \<and> r_width r = v_width v \<and> r_height r = v_height v" for k r
    by (auto simp: pick_def truthy_url_def variant_ref_def split: option.splits if_splits)
  have policy: "(w \<le> 1280 \<longrightarrow>
      getResponsiveVariant photo w = select_by_preference photo [''tablet'', ''desktop'', ''full''])
   \<and> (1920 < w \<longrightarrow> getResponsiveVariant photo w = select_by_preference photo [''full''])
   \<and> (1280 < w \<and> w \<le> 1920 \<longrightarrow>
      getResponsiveVariant photo w = select_by_preference photo [''desktop'', ''full''])"
    by (simp add: getResponsiveVariant_def BREAKPOINTS_tablet_def BREAKPOINTS_desktop_def
        split: option.splits)
  have total: "getResponsiveVariant photo w = top_level_ref photo
      \<or> (\<exists>k \<in> {''tablet'', ''desktop'', ''full''}. pick photo k = Some (getResponsiveVariant photo w))"
    by (simp add: getResponsiveVariant_def split: option.splits)
  from total usable have "getResponsiveVariant photo w = top_level_ref photo
      \<or> (\<exists>k v. k \<in> {''tablet'', ''desktop'', ''full''} \<and> obj_get (p_variants photo) k = Some v
            \<and> v_url v = Some (r_url (getResponsiveVariant photo w))
            \<and> r_url (getResponsiveVariant photo w) \<noteq> []
            \<and> r_width (getResponsiveVariant photo w) = v_width v
            \<and> r_height (getResponsiveVariant photo w) = v_height v)"
    by blast
  with policy show ?thesis by blast
qed

theorem selector_policy_witness:
  "getResponsiveVariant
     \<lparr>p_id = ''k1'', p_category = ''Ceremony'', p_timeOfDay = ''Day'', p_blurDataUrl = ''data:'',
      p_variants = [(''desktop'', \<lparr>v_width = 1920, v_height = 1280, v_relativePath = None, v_url = Some ''d''\<rparr>),
                    (''full'', \<lparr>v_width = 3000, v_height = 2000, v_relativePath = None, v_url = Some ''f''\<rparr>)],
      p_url = ''t'', p_width = 1920, p_height = 1280\<rparr> 320
   = \<lparr>r_url = ''d'', r_width = 1920, r_height = 1280\<rparr>
   \<and> getResponsiveVariant
     \<lparr>p_id = ''k1'', p_category = ''Ceremony'', p_timeOfDay = ''Day'', p_blurDataUrl = ''data:'',
      p_variants = [(''desktop'', \<lparr>v_width = 1920, v_height = 1280, v_relativePath = None, v_url = Some ''d''\<rparr>),
                    (''full'', \<lparr>v_width = 3000, v_height = 2000, v_relativePath = None, v_url = Some ''f''\<rparr>)],
      p_url = ''t'', p_width = 1920, p_height = 1280\<rparr> 2000
   = \<lparr>r_url = ''f'', r_width = 3000, r_height = 2000\<rparr>"
  using selector_policy [of 320 "\<lparr>p_id = ''k1'', p_category = ''Ceremony'', p_timeOfDay = ''Day'', p_blurDataUrl = ''data:'',
      p_variants = [(''desktop'', \<lparr>v_width = 1920, v_height = 1280, v_relativePath = None, v_url = Some ''d''\<rparr>),
                    (''full'', \<lparr>v_width = 3000, v_height = 2000, v_relativePath = None, v_url = Some ''f''\<rparr>)],
      p_url = ''t'', p_width = 1920, p_height = 1280\<rparr>"]
    selector_policy [of 2000 "\<lparr>p_id = ''k1'', p_category = ''Ceremony'', p_timeOfDay = ''Day'', p_blurDataUrl = ''data:'',
      p_variants = [(''desktop'', \<lparr>v_width = 1920, v_height = 1280, v_relativePath = None, v_url = Some ''d''\<rparr>),
                    (''full'', \<lparr>v_width = 3000, v_height = 2000, v_relativePath = None, v_url = Some ''f''\<rparr>)],
      p_url = ''t'', p_width = 1920, p_height = 1280\<rparr>"]
  by (simp add: pick_def obj_get_def truthy_url_def variant_ref_def)

text \<open>
  The claim as stated fails above the desktop breakpoint: an entry with a desktop
  variant and no full variant gets its top-level url at width 2000, not the desktop
  variant.
\<close>

theorem selector_desktop_fallback_counterexample:
  "pick \<lparr>p_id = ''k1'', p_category = ''Ceremony'', p_timeOfDay = ''Day'', p_blurDataUrl = ''data:'',
      p_variants = [(''desktop'', \<lparr>v_width = 1920, v_height = 1280, v_relativePath = None, v_url = Some ''d''\<rparr>)],
      p_url = ''t'', p_width = 640, p_height = 427\<rparr> ''full'' = None
   \<and> pick \<lparr>p_id = ''k1'', p_category = ''Ceremony'', p_timeOfDay = ''Day'', p_blurDataUrl = ''data:'',
      p_variants = [(''desktop'', \<lparr>v_width = 1920, v_height = 1280, v_relativePath = None, v_url = Some ''d''\<rparr>)],
      p_url = ''t'', p_width = 640, p_height = 427\<rparr> ''desktop''
     = Some \<lparr>r_url = ''d'', r_width = 1920, r_height = 1280\<rparr>
   \<and> getResponsiveVariant
     \<lparr>p_id = ''k1'', p_category = ''Ceremony'', p_timeOfDay = ''Day'', p_blurDataUrl = ''data:'',
      p_variants = [(''desktop'', \<lparr>v_width = 1920, v_height = 1280, v_relativePath = None, v_url = Some ''d''\<rparr>)],
      p_url = ''t'', p_width = 640, p_height = 427\<rparr> 2000
     = \<lparr>r_url = ''t'', r_width = 640, r_height = 427\<rparr>"
  by (simp add: getResponsiveVariant_def pick_def obj_get_def truthy_url_def variant_ref_def
      top_level_ref_def BREAKPOINTS_tablet_def BREAKPOINTS_desktop_def)

text \<open>
  When the manifest file cannot be read, or its content cannot be parsed,
  \<open>getAllImages\<close> and \<open>getImagesByCategory\<close> return the empty list and \<open>getImageById\<close>
  returns null for every non-empty id; no error is raised.
\<close>

lemma reader_soft_fail:
  assumes "file = None \<or> (\<exists>data. file = Some data \<and> JSON_parse data = None)"
  shows "getAllImages JSON_parse file = Photos []
     \<and> getImagesByCategory JSON_parse file category = Photos []
     \<and> (ident \<noteq> [] \<longrightarrow> getImageById JSON_parse file ident = Null)"
proof -
  from assms have "readManifest JSON_parse file = []"
    by (auto simp: readManifest_def)
  then show ?thesis
    by (simp add: getAllImages_def getImagesByCategory_def getImageById_def getImages_def truthy_def)
qed

lemma reader_soft_fail_example:
  "getAllImages (\<lambda>data. None) (Some ''{ not json'') = Photos []
   \<and> getImagesByCategory (\<lambda>data. None) (Some ''{ not json'') ''Ceremony'' = Photos []
   \<and> getImageById (\<lambda>data. None) (Some ''{ not json'') ''abc123'' = Null
   \<and> getAllImages (\<lambda>data. Some []) None = Photos []
   \<and> getImagesByCategory (\<lambda>data. Some []) None ''Ceremony'' = Photos []
   \<and> getImageById (\<lambda>data. Some []) None ''abc123'' = Null"
  using reader_soft_fail [of "Some ''{ not json''" "\<lambda>data. None" "''Ceremony''" "''abc123''"]
    reader_soft_fail [of None "\<lambda>data. Some []" "''Ceremony''" "''abc123''"]
  by simp

text \<open>
  C6. On a missing or unparsable manifest the claim asks \<open>getImageById\<close> for null. The
  code gives null for every non-empty id (\<open>reader_soft_fail\<close>), but not for the empty
  id: \<open>getImages\<close> tests the id for truthiness, so \<open>getImageById\<close> of the empty string
  is \<open>getAllImages\<close>, whatever the file holds, and on a missing manifest it returns the
  empty list instead of null, against its own return type \<open>PhotoManifest | null\<close>.
\<close>

theorem getImageById_empty_id:
  "getImageById JSON_parse file [] = getAllImages JSON_parse file
   \<and> getImageById JSON_parse None [] = Photos []
   \<and> getImageById JSON_parse None [] \<noteq> Null
   \<and> getImageById (\<lambda>data. None) (Some ''{ not json'') [] = Photos []"
  by (simp add: getImageById_def getAllImages_def getImages_def readManifest_def truthy_def)

text \<open>
  C10 (as amended). When the id option is a non-empty string, the result of
  \<open>getImages\<close> is the first entry of the manifest with that id, or null when there is
  none, whatever the category option holds: it equals the result of the lookup by id
  alone, also when the manifest loaded successfully, and the category filter is
  ignored.
\<close>

theorem id_takes_precedence:
  assumes "o_id opts = Some ident" and "ident \<noteq> []"
  shows "getImages JSON_parse file (Some opts)
       = getImages JSON_parse file (Some \<lparr>o_category = None, o_id = Some ident\<rparr>)
     \<and> getImages JSON_parse file (Some opts) = getImageById JSON_parse file ident
     \<and> getImages JSON_parse file (Some opts)
       = (case find (\<lambda>photo. p_id photo = ident) (readManifest JSON_parse file) of
            Some photo \<Rightarrow> Photo photo
          | None \<Rightarrow> Null)"
  using assms by (simp add: getImages_def getImageById_def truthy_def)

theorem id_takes_precedence_witness:
  "getImages (\<lambda>data. Some ex_manifest) (Some ''[]'')
     (Some \<lparr>o_category = Some ''Ceremony'', o_id = Some ''k2''\<rparr>)
   = Photo \<lparr>p_id = ''k2'', p_category = ''Reception'', p_timeOfDay = ''Evening'', p_blurDataUrl = ''data:'',
         p_variants = [], p_url = ''u2'', p_width = 1920, p_height = 1280\<rparr>"
proof -
  have h1: "o_id \<lparr>o_category = Some ''Ceremony'', o_id = Some ''k2''\<rparr> = Some ''k2''" by simp
  have h2: "''k2'' \<noteq> []" by simp
  from id_takes_precedence [OF h1 h2, of "\<lambda>data. Some ex_manifest" "Some ''[]''"]
  have "getImages (\<lambda>data. Some ex_manifest) (Some ''[]'')
     (Some \<lparr>o_category = Some ''Ceremony'', o_id = Some ''k2''\<rparr>)
     = (case find (\<lambda>photo. p_id photo = ''k2'') (readManifest (\<lambda>data. Some ex_manifest) (Some ''[]'')) of
            Some photo \<Rightarrow> Photo photo
          | None \<Rightarrow> Null)" by blast
  then show ?thesis by (simp add: readManifest_def ex_manifest_def)
qed

text \<open>
  The claim as stated fails when the id that is set is the empty string: the test of
  the id is falsy, the category filter runs, and the result differs from the lookup
  by that id alone, which returns the whole manifest.
\<close>

theorem id_empty_precedence_counterexample:
  "getImages (\<lambda>data. Some ex_manifest) (Some ''[]'')
     (Some \<lparr>o_category = Some ''Ceremony'', o_id = Some []\<rparr>)
   = Photos [\<lparr>p_id = ''k1'', p_category = ''Ceremony'', p_timeOfDay = ''Day'', p_blurDataUrl = ''data:'',
               p_variants = [], p_url = ''u1'', p_width = 1920, p_height = 1280\<rparr>]
   \<and> getImages (\<lambda>data. Some ex_manifest) (Some ''[]'')
     (Some \<lparr>o_category = None, o_id = Some []\<rparr>)
   = Photos [\<lparr>p_id = ''k1'', p_category = ''Ceremony'', p_timeOfDay = ''Day'', p_blurDataUrl = ''data:'',
               p_variants = [], p_url = ''u1'', p_width = 1920, p_height = 1280\<rparr>,
             \<lparr>p_id = ''k2'', p_category = ''Reception'', p_timeOfDay = ''Evening'', p_blurDataUrl = ''data:'',
               p_variants = [], p_url = ''u2'', p_width = 1920, p_height = 1280\<rparr>]
   \<and> getImages (\<lambda>data. Some ex_manifest) (Some ''[]'')
         (Some \<lparr>o_category = Some ''Ceremony'', o_id = Some []\<rparr>)
     \<noteq> getImages (\<lambda>data. Some ex_manifest) (Some ''[]'')
         (Some \<lparr>o_category = None, o_id = Some []\<rparr>)"
  by (simp add: getImages_def readManifest_def truthy_def ex_manifest_def)

subsection \<open>Objects\<close>

lemma obj_get_obj_set: "obj_get (obj_set k v ob) k' = (if k' = k then Some v else obj_get ob k')"
  by (induction ob) (auto simp: obj_get_def)

lemma obj_keys_obj_set: "set (obj_keys (obj_set k v ob)) = insert k (set (obj_keys ob))"
  by (induction ob) (auto simp: obj_keys_def)

lemma obj_get_None_iff: "obj_get ob k = None \<longleftrightarrow> k \<notin> set (obj_keys ob)"
  by (simp add: obj_get_def obj_keys_def map_of_eq_None_iff)

lemma entries_keys: "obj_keys (entries mv) = sizeNames"
  by (simp add: entries_def obj_keys_def sizeNames_def)

subsection \<open>The manifest assembler\<close>

lemma split_not_Nil: "split sep s \<noteq> []"
  by (induction s) (auto split: list.splits)

lemma pushed_None: "up (fst im) = None \<Longrightarrow> pushed sep up im = []"
  by (simp add: pushed_def manifestEntry_def)

lemma pushed_entry: "e \<in> set (pushed sep up im) \<Longrightarrow> manifestEntry sep (snd im) (up (fst im)) = Inr (Some e)"
  by (auto simp: pushed_def split: sum.splits option.splits)

lemma constructManifest_from_eq:
  "constructManifest_from sep idx metas up acc = Inr manifest
   \<Longrightarrow> manifest = acc @ concat (map (pushed sep up) (enumerate idx metas))"
proof (induction metas arbitrary: idx acc)
  case Nil
  then show ?case by simp
next
  case (Cons meta rest)
  show ?case
  proof (cases "manifestEntry sep meta (up idx)")
    case (Inl e)
    with Cons.prems show ?thesis by simp
  next
    case (Inr r)
    show ?thesis
    proof (cases r)
      case None
      with Inr Cons.prems have "constructManifest_from sep (Suc idx) rest up acc = Inr manifest"
        by simp
      from Cons.IH [OF this] Inr None show ?thesis by (simp add: pushed_def)
    next
      case (Some entry)
      with Inr Cons.prems have "constructManifest_from sep (Suc idx) rest up (acc @ [entry]) = Inr manifest"
        by simp
      from Cons.IH [OF this] Inr Some show ?thesis by (simp add: pushed_def)
    qed
  qed
qed

lemma constructManifest_eq:
  "constructManifest sep metas up = Inr manifest
   \<Longrightarrow> manifest = concat (map (pushed sep up) (enumerate 0 metas))"
  using constructManifest_from_eq [of sep 0 metas up "[]" manifest]
  by (simp add: constructManifest_def)

lemma concat_pushed_filter:
  "concat (map (pushed sep up) (filter (hasUploads up) xs)) = concat (map (pushed sep up) xs)"
  by (induction xs) (auto simp: hasUploads_def pushed_None)

lemma manifest_entry_source:
  assumes "constructManifest sep metas up = Inr manifest" and "e \<in> set manifest"
  shows "\<exists>i < length metas. manifestEntry sep (metas ! i) (up i) = Inr (Some e)"
proof -
  from assms obtain im where im: "im \<in> set (enumerate 0 metas)" and e: "e \<in> set (pushed sep up im)"
    by (auto dest!: constructManifest_eq)
  from im have "fst im < length metas" and "snd im = metas ! fst im"
    by (auto simp: in_set_enumerate_eq)
  with pushed_entry [OF e] show ?thesis by auto
qed

lemma fillVariants_total:
  "set ks \<subseteq> set sizeNames \<Longrightarrow> \<exists>out. fillVariants ks mv ups acc = Inr out"
proof (induction ks arbitrary: acc)
  case Nil
  then show ?case by simp
next
  case (Cons k ks)
  from Cons.prems have "obj_get (entries mv) k \<noteq> None"
    by (simp add: obj_get_None_iff entries_keys)
  with Cons show ?case by (auto split: option.splits)
qed

lemma fillVariants_get:
  "fillVariants ks mv ups acc = Inr out \<Longrightarrow>
   obj_get out k =
     (if k \<in> set ks \<and> obj_get ups k \<noteq> None
      then (case obj_get ups k of
              None \<Rightarrow> None
            | Some u \<Rightarrow>
               (case obj_get (entries mv) k of
                  None \<Rightarrow> None
                | Some var \<Rightarrow> Some \<lparr>v_width = v_width var, v_height = v_height var,
                                 v_relativePath = None, v_url = Some (u_url u)\<rparr>))
      else obj_get acc k)"
proof (induction ks arbitrary: acc)
  case Nil
  then show ?case by simp
next
  case (Cons k' ks)
  show ?case
  proof (cases "obj_get ups k'")
    case None
    with Cons.prems have "fillVariants ks mv ups acc = Inr out" by simp
    from Cons.IH [OF this] None show ?thesis by auto
  next
    case (Some u)
    with Cons.prems obtain var where var: "obj_get (entries mv) k' = Some var"
      by (auto split: option.splits)
    with Some Cons.prems have "fillVariants ks mv ups
        (obj_set k' \<lparr>v_width = v_width var, v_height = v_height var,
                    v_relativePath = None, v_url = Some (u_url u)\<rparr> acc) = Inr out"
      by simp
    from Cons.IH [OF this] Some var show ?thesis
      by (auto simp: obj_get_obj_set)
  qed
qed

lemma fillVariants_keys:
  "fillVariants ks mv ups acc = Inr out \<Longrightarrow>
   set (obj_keys out) = set (obj_keys acc) \<union> {k \<in> set ks. obj_get ups k \<noteq> None}"
proof (induction ks arbitrary: acc)
  case Nil
  then show ?case by simp
next
  case (Cons k' ks)
  show ?case
  proof (cases "obj_get ups k'")
    case None
    with Cons.prems have "fillVariants ks mv ups acc = Inr out" by simp
    from Cons.IH [OF this] None show ?thesis by auto
  next
    case (Some u)
    with Cons.prems obtain var where var: "obj_get (entries mv) k' = Some var"
      by (auto split: option.splits)
    with Some Cons.prems have "fillVariants ks mv ups
        (obj_set k' \<lparr>v_width = v_width var, v_height = v_height var,
                    v_relativePath = None, v_url = Some (u_url u)\<rparr> acc) = Inr out"
      by simp
    from Cons.IH [OF this] Some show ?thesis
      by (auto simp: obj_keys_obj_set)
  qed
qed

lemma manifestEntry_variants:
  assumes "manifestEntry sep meta (Some ups) = Inr (Some e)"
  shows "fillVariants sizeNames (m_variants meta) ups [] = Inr (p_variants e)"
  using assms
  by (auto simp: manifestEntry_def Let_def entries_keys split: sum.splits option.splits if_splits)

lemma defaultVariantKey_first_available: "defaultVariantKey ups = first_available ups"
proof -
  have all: "find (\<lambda>k. obj_get ups k \<noteq> None) (obj_keys ups) = (case obj_keys ups of [] \<Rightarrow> None | k # ks \<Rightarrow> Some k)"
    by (cases ups) (auto simp: obj_keys_def obj_get_def)
  have nofilter: "obj_get ups ''desktop'' = None \<Longrightarrow> obj_get ups ''tablet'' = None \<Longrightarrow>
      filter (\<lambda>k. k \<noteq> ''desktop'' \<and> k \<noteq> ''tablet'') (obj_keys ups) = obj_keys ups"
    by (auto simp: obj_get_None_iff filter_id_conv)
  show ?thesis
    using all nofilter
    by (auto simp: defaultVariantKey_def first_available_def preference_order_def)
qed

lemma category_is_first_piece:
  assumes "manifestEntry sep meta up = Inr (Some e)"
  shows "split sep (m_relativePathBase meta) \<noteq> []
     \<and> p_category e = split sep (m_relativePathBase meta) ! 0"
proof -
  from assms obtain ups where "up = Some ups"
    by (cases up) (auto simp: manifestEntry_def)
  with assms show ?thesis
    using split_not_Nil [of sep "m_relativePathBase meta"]
    by (cases "split sep (m_relativePathBase meta)")
       (auto simp: manifestEntry_def Let_def split: sum.splits option.splits if_splits)
qed

lemma defaultVariantKey_present:
  "ups \<noteq> [] \<Longrightarrow> \<exists>k u. defaultVariantKey ups = Some k \<and> obj_get ups k = Some u"
  by (cases ups) (auto simp: defaultVariantKey_def obj_keys_def obj_get_def)

text \<open>
  An entry assembled from a record with a desktop upload has the desktop variant as its
  top-level url, width and height: there the selector's top-level fallback is the
  desktop variant.
\<close>

lemma assembled_desktop_is_top_level:
  assumes me: "manifestEntry sep meta (Some ups) = Inr (Some e)"
    and d: "obj_get ups ''desktop'' = Some u" and url: "u_url u \<noteq> []"
  shows "pick e ''desktop'' = Some (top_level_ref e)"
proof -
  have fv: "fillVariants sizeNames (m_variants meta) ups [] = Inr (p_variants e)"
    using me by (rule manifestEntry_variants)
  have var: "obj_get (entries (m_variants meta)) ''desktop'' = Some (desktop (m_variants meta))"
    by (simp add: entries_def obj_get_def)
  have "obj_get (p_variants e) ''desktop''
      = Some \<lparr>v_width = v_width (desktop (m_variants meta)), v_height = v_height (desktop (m_variants meta)),
              v_relativePath = None, v_url = Some (u_url u)\<rparr>"
    using fillVariants_get [OF fv, of "''desktop''"] d var by (simp add: sizeNames_def)
  moreover have "p_url e = u_url u \<and> p_width e = v_width (desktop (m_variants meta))
      \<and> p_height e = v_height (desktop (m_variants meta))"
    using me d var
    by (auto simp: manifestEntry_def Let_def defaultVariantKey_def split: sum.splits option.splits if_splits)
  ultimately show ?thesis
    using url by (simp add: pick_def truthy_url_def variant_ref_def top_level_ref_def)
qed

subsection \<open>The batch loop\<close>

lemma batches_length: "length (batches q) = (length q + 4) div 5"
  by (simp add: batches_def BATCH_SIZE_def)

lemma batches_nth:
  "k < length (batches q) \<Longrightarrow> batches q ! k = take BATCH_SIZE (drop (k * BATCH_SIZE) q)"
  by (simp add: batches_def)

lemma batches_nth_length:
  assumes "k < length (batches q)"
  shows "length (batches q ! k) = min 5 (length q - 5 * k)" and "0 < length (batches q ! k)"
proof -
  from assms have k: "k < (length q + 4) div 5" by (simp add: batches_length)
  show "length (batches q ! k) = min 5 (length q - 5 * k)"
    using assms by (simp add: batches_nth BATCH_SIZE_def mult.commute)
  moreover from k have "5 * k < length q" by arith
  ultimately show "0 < length (batches q ! k)" by simp
qed

lemma concat_pieces:
  "concat (map (\<lambda>k. take n (drop (k * n) q)) [0 ..< m]) = take (m * n) q"
proof (induction m)
  case 0
  then show ?case by simp
next
  case (Suc m)
  have "take (m * n) q @ take n (drop (m * n) q) = take (m * n + n) q"
    by (simp add: take_add)
  with Suc show ?case by (simp add: add.commute)
qed

lemma batches_concat: "concat (batches q) = q"
proof -
  have "length q \<le> (length q + 4) div 5 * 5" by arith
  then show ?thesis
    by (simp add: batches_def concat_pieces BATCH_SIZE_def)
qed

lemma drop_batches:
  "k < length (batches q) \<Longrightarrow>
   drop k (batches q) = take BATCH_SIZE (drop (k * BATCH_SIZE) q) # drop (Suc k) (batches q)"
  using Cons_nth_drop_Suc [of k "batches q"] by (simp add: batches_nth)

lemma uploadLoop_runBatches:
  "i = k * BATCH_SIZE \<Longrightarrow> uploadLoop uf i q st = runBatches uf k (drop k (batches q)) st"
proof (induction uf i q st arbitrary: k rule: uploadLoop.induct)
  case (1 uf i q st)
  show ?case
  proof (cases "i < length q")
    case True
    with "1.prems" have k: "k < length (batches q)"
      by (simp add: batches_length BATCH_SIZE_def)
    from "1.prems" have next_i: "i + BATCH_SIZE = Suc k * BATCH_SIZE" by simp
    have "uploadLoop uf i q st
        = uploadLoop uf (i + BATCH_SIZE) q (uploadBatch uf i (slice i (i + BATCH_SIZE) q) st)"
      using True by (subst uploadLoop.simps) simp
    also have "\<dots> = runBatches uf (Suc k) (drop (Suc k) (batches q))
        (uploadBatch uf i (slice i (i + BATCH_SIZE) q) st)"
      using "1.IH" [OF True next_i] .
    also have "\<dots> = runBatches uf k (drop k (batches q)) st"
      using "1.prems" by (simp add: drop_batches [OF k] slice_def)
    finally show ?thesis .
  next
    case False
    with "1.prems" have "length (batches q) \<le> k"
      by (simp add: batches_length BATCH_SIZE_def)
    with False show ?thesis by (subst uploadLoop.simps) simp
  qed
qed

subsection \<open>The upload record that reaches the assembler\<close>

lemma obj_set_not_Nil: "obj_set k v ob \<noteq> []"
  by (cases ob) auto

lemma queueVariants_sizeNames:
  "queueVariants nd dir idx vs acc = Inr q \<Longrightarrow> fst ` set vs \<subseteq> S \<Longrightarrow> j_sizeName ` set acc \<subseteq> S
   \<Longrightarrow> j_sizeName ` set q \<subseteq> S"
proof (induction vs arbitrary: acc)
  case Nil
  then show ?case by simp
next
  case (Cons p vs)
  obtain sizeName variant where p: "p = (sizeName, variant)" by (cases p)
  from Cons.prems(1) p obtain rel where rel: "v_relativePath variant = Some rel"
    by (auto split: option.splits)
  show ?case
  proof (cases "fs_existsSync nd (path_join nd dir rel)")
    case True
    with Cons.prems(1) p rel obtain job where
      "queueVariants nd dir idx vs (acc @ [job]) = Inr q" and "j_sizeName job = sizeName"
      by (auto simp: Let_def)
    with Cons.IH [of "acc @ [job]"] Cons.prems(2,3) p show ?thesis by auto
  next
    case False
    with Cons.prems(1) p rel have "queueVariants nd dir idx vs acc = Inr q"
      by (simp add: Let_def)
    with Cons.IH [of acc] Cons.prems(2,3) show ?thesis by auto
  qed
qed

lemma buildQueue_from_sizeNames:
  "buildQueue_from nd dir idx metas acc = Inr q \<Longrightarrow> j_sizeName ` set acc \<subseteq> set sizeNames
   \<Longrightarrow> j_sizeName ` set q \<subseteq> set sizeNames"
proof (induction metas arbitrary: idx acc)
  case Nil
  then show ?case by simp
next
  case (Cons meta metas)
  from Cons.prems(1) obtain acc' where
    qv: "queueVariants nd dir idx (entries (m_variants meta)) acc = Inr acc'" and
    rest: "buildQueue_from nd dir (Suc idx) metas acc' = Inr q"
    by (auto split: sum.splits)
  have "fst ` set (entries (m_variants meta)) \<subseteq> set sizeNames"
    by (simp add: entries_def sizeNames_def)
  from queueVariants_sizeNames [OF qv this Cons.prems(2)] Cons.IH [OF rest] show ?case by blast
qed

lemma buildQueue_sizeNames:
  "buildQueue nd dir metas = Inr q \<Longrightarrow> j_sizeName ` set q \<subseteq> set sizeNames"
  using buildQueue_from_sizeNames [of nd dir 0 metas "[]" q] by (simp add: buildQueue_def)

lemma recordResponse_ok:
  assumes ok: "recordsOk (uploadedUrls st)" and name: "j_sizeName job \<in> set sizeNames"
  shows "recordsOk (uploadedUrls (recordResponse job res st))"
proof (cases res)
  case None
  with ok show ?thesis by (simp add: recordResponse_def)
next
  case (Some d)
  let ?r = "case uploadedUrls st (j_metaIndex job) of None \<Rightarrow> [] | Some r \<Rightarrow> r"
  have r: "set (obj_keys ?r) \<subseteq> set sizeNames"
  proof (cases "uploadedUrls st (j_metaIndex job)")
    case None
    then show ?thesis by (simp add: obj_keys_def)
  next
    case (Some r0)
    with ok show ?thesis by (simp add: recordsOk_def)
  qed
  have new: "uploadedUrls (recordResponse job res st)
      = (uploadedUrls st)(j_metaIndex job \<mapsto> obj_set (j_sizeName job) \<lparr>u_url = u_url d, u_key = u_key d\<rparr> ?r)"
    using Some by (simp add: recordResponse_def)
  show ?thesis
    unfolding new recordsOk_def
  proof (intro allI impI)
    fix i ups
    assume lookup: "((uploadedUrls st)(j_metaIndex job \<mapsto> obj_set (j_sizeName job) \<lparr>u_url = u_url d, u_key = u_key d\<rparr> ?r)) i = Some ups"
    show "ups \<noteq> [] \<and> set (obj_keys ups) \<subseteq> set sizeNames"
    proof (cases "i = j_metaIndex job")
      case True
      with lookup have "ups = obj_set (j_sizeName job) \<lparr>u_url = u_url d, u_key = u_key d\<rparr> ?r" by simp
      with r name show ?thesis by (simp add: obj_set_not_Nil obj_keys_obj_set)
    next
      case False
      with lookup have "uploadedUrls st i = Some ups" by simp
      with ok show ?thesis by (simp add: recordsOk_def)
    qed
  qed
qed

lemma handleResponses_ok:
  "handleResponses batch responses st = (thrown, st') \<Longrightarrow> recordsOk (uploadedUrls st)
   \<Longrightarrow> j_sizeName ` set batch \<subseteq> set sizeNames \<Longrightarrow> recordsOk (uploadedUrls st')"
proof (induction batch responses st rule: handleResponses.induct)
  case (1 batch st)
  then show ?case by simp
next
  case (2 res responses st)
  then show ?case by simp
next
  case (3 job batch res responses st)
  from "3.prems" have "recordsOk (uploadedUrls (recordResponse job res st))"
    by (simp add: recordResponse_ok)
  with "3.IH" "3.prems" show ?case by simp
qed

lemma uploadBatch_ok:
  assumes "recordsOk (uploadedUrls st)" and "j_sizeName ` set batch \<subseteq> set sizeNames"
  shows "recordsOk (uploadedUrls (uploadBatch uf i batch st))"
proof -
  obtain outcome svc' where call: "uf (service st) (map j_file batch) = (outcome, svc')"
    by (cases "uf (service st) (map j_file batch)")
  show ?thesis
  proof (cases outcome)
    case None
    with call assms show ?thesis by (simp add: uploadBatch_def)
  next
    case (Some responses)
    let ?st2 = "st\<lparr>console := console st @ [Uploading (i div BATCH_SIZE + 1) (length batch)],
                   service := svc'\<rparr>"
    obtain thrown st3 where hr: "handleResponses batch responses ?st2 = (thrown, st3)"
      by (cases "handleResponses batch responses ?st2")
    from handleResponses_ok [OF hr] assms have "recordsOk (uploadedUrls st3)" by simp
    with call Some hr show ?thesis
      by (cases thrown) (simp_all add: uploadBatch_def)
  qed
qed

lemma runBatches_ok:
  "recordsOk (uploadedUrls st) \<Longrightarrow> \<forall>b \<in> set bs. j_sizeName ` set b \<subseteq> set sizeNames
   \<Longrightarrow> recordsOk (uploadedUrls (runBatches uf k bs st))"
  by (induction bs arbitrary: k st) (simp_all add: uploadBatch_ok)

lemma uploadAll_ok:
  assumes "j_sizeName ` set q \<subseteq> set sizeNames"
  shows "recordsOk (uploadedUrls (uploadAll uf q svc))"
proof -
  have "set b \<subseteq> set q" if "b \<in> set (batches q)" for b
    using that batches_concat [of q] by (metis Sup_upper image_eqI set_concat)
  with assms have "\<forall>b \<in> set (batches q). j_sizeName ` set b \<subseteq> set sizeNames" by blast
  moreover have "recordsOk (uploadedUrls \<lparr>uploadedUrls = Map.empty, console = [], service = svc\<rparr>)"
    by (simp add: recordsOk_def)
  ultimately show ?thesis
    using uploadLoop_runBatches [of 0 0 uf q] by (simp add: uploadAll_def runBatches_ok)
qed

lemma main_records_ok:
  "buildQueue nd dir metas = Inr q \<Longrightarrow> uploadedUrls (uploadAll uf q svc) i = Some ups
   \<Longrightarrow> ups \<noteq> [] \<and> set (obj_keys ups) \<subseteq> set sizeNames"
  using uploadAll_ok [OF buildQueue_sizeNames, of nd dir metas q uf svc]
  by (simp add: recordsOk_def)

subsection \<open>The whole run\<close>

text \<open>
  With the records that the batch loop builds, the assembler never throws: once the
  queue is built, \<open>main\<close> writes a manifest.
\<close>

lemma manifestEntry_total:
  assumes "ups \<noteq> []" and "set (obj_keys ups) \<subseteq> set sizeNames"
  shows "\<exists>e. manifestEntry sep meta (Some ups) = Inr (Some e)"
proof -
  from defaultVariantKey_present [OF assms(1)] obtain k u
    where k: "defaultVariantKey ups = Some k" and u: "obj_get ups k = Some u" by blast
  from u have "k \<in> set (obj_keys ups)" using obj_get_None_iff [of ups k] by auto
  with assms(2) have ks: "k \<in> set sizeNames" by blast
  then have ne: "k \<noteq> []" by (auto simp: sizeNames_def)
  from ks obtain var where var: "obj_get (entries (m_variants meta)) k = Some var"
    using obj_get_None_iff [of "entries (m_variants meta)" k] by (auto simp: entries_keys)
  from fillVariants_total [of sizeNames "m_variants meta" ups "[]"]
  obtain out where "fillVariants sizeNames (m_variants meta) ups [] = Inr out" by auto
  with k u var ne show ?thesis
    by (simp add: manifestEntry_def Let_def entries_keys)
qed

lemma constructManifest_from_total:
  "recordsOk up \<Longrightarrow> \<exists>manifest. constructManifest_from sep idx metas up acc = Inr manifest"
proof (induction metas arbitrary: idx acc)
  case Nil
  then show ?case by simp
next
  case (Cons meta metas)
  show ?case
  proof (cases "up idx")
    case None
    with Cons show ?thesis by (simp add: manifestEntry_def)
  next
    case (Some ups)
    with Cons.prems have "ups \<noteq> []" and "set (obj_keys ups) \<subseteq> set sizeNames"
      by (auto simp: recordsOk_def)
    from manifestEntry_total [OF this, of sep meta] obtain e
      where "manifestEntry sep meta (Some ups) = Inr (Some e)" by blast
    with Some Cons show ?thesis by simp
  qed
qed

lemma main_total:
  assumes "buildQueue nd dir metas = Inr q"
  shows "\<exists>manifest. main nd sep uf svc dir metas = Inr manifest"
  using assms constructManifest_from_total [OF uploadAll_ok [OF buildQueue_sizeNames [OF assms]]]
  by (simp add: main_def constructManifest_def)

subsection \<open>What the batch loop does with the service\<close>

lemma recordResponse_service: "service (recordResponse job res st) = service st"
  by (cases res) (simp_all add: recordResponse_def)

lemma recordResponse_console:
  "console (recordResponse job res st) = console st @ [settleLine (job, res)]"
  by (cases res) (simp_all add: recordResponse_def settleLine_def)

lemma recordResponse_uploads_cong:
  "uploadedUrls st = uploadedUrls st'
   \<Longrightarrow> uploadedUrls (recordResponse job res st) = uploadedUrls (recordResponse job res st')"
  by (cases res) (simp_all add: recordResponse_def)

lemma recordAll_service: "service (recordAll settled st) = service st"
  by (induction settled arbitrary: st) (simp_all add: recordAll_def recordResponse_service)

lemma recordAll_console:
  "console (recordAll settled st) = console st @ map settleLine settled"
  by (induction settled arbitrary: st) (simp_all add: recordAll_def recordResponse_console)

lemma recordAll_uploads_cong:
  "uploadedUrls st = uploadedUrls st'
   \<Longrightarrow> uploadedUrls (recordAll settled st) = uploadedUrls (recordAll settled st')"
proof (induction settled arbitrary: st st')
  case Nil
  then show ?case by (simp add: recordAll_def)
next
  case (Cons jr settled)
  from Cons.prems have "uploadedUrls (recordResponse (fst jr) (snd jr) st)
      = uploadedUrls (recordResponse (fst jr) (snd jr) st')"
    by (rule recordResponse_uploads_cong)
  from Cons.IH [OF this] show ?case by (simp add: recordAll_def)
qed

lemma recordAll_append: "recordAll (xs @ ys) st = recordAll ys (recordAll xs st)"
  by (simp add: recordAll_def)

lemma handleResponses_recordAll:
  "handleResponses batch responses st
   = (length batch < length responses, recordAll (zip batch responses) st)"
  by (induction batch responses st rule: handleResponses.induct) (simp_all add: recordAll_def)

text \<open>One turn of the loop: the call, and then the handling of every response.\<close>

lemma uploadBatch_call:
  assumes "uf (service st) (map j_file batch) = (outcome, svc')"
  shows "service (uploadBatch uf i batch st) = svc'"
    and "console (uploadBatch uf i batch st)
           = console st @ Uploading (i div BATCH_SIZE + 1) (length batch) # settleLines batch outcome"
    and "uploadedUrls (uploadBatch uf i batch st)
           = uploadedUrls (recordAll (case outcome of None \<Rightarrow> [] | Some responses \<Rightarrow> zip batch responses) st)"
proof -
  let ?st2 = "st\<lparr>console := console st @ [Uploading (i div BATCH_SIZE + 1) (length batch)],
                 service := svc'\<rparr>"
  have same: "uploadedUrls ?st2 = uploadedUrls st" by simp
  show "service (uploadBatch uf i batch st) = svc'"
    using assms
    by (cases outcome)
       (simp_all add: uploadBatch_def Let_def handleResponses_recordAll recordAll_service
          split: bool.splits)
  show "console (uploadBatch uf i batch st)
           = console st @ Uploading (i div BATCH_SIZE + 1) (length batch) # settleLines batch outcome"
    using assms
    by (cases outcome)
       (simp_all add: uploadBatch_def Let_def handleResponses_recordAll recordAll_console settleLines_def
          split: bool.splits)
  show "uploadedUrls (uploadBatch uf i batch st)
           = uploadedUrls (recordAll (case outcome of None \<Rightarrow> [] | Some responses \<Rightarrow> zip batch responses) st)"
  proof (cases outcome)
    case None
    with assms show ?thesis by (simp add: uploadBatch_def Let_def recordAll_def)
  next
    case (Some responses)
    with assms have "uploadedUrls (uploadBatch uf i batch st)
        = uploadedUrls (recordAll (zip batch responses) ?st2)"
      by (simp add: uploadBatch_def Let_def handleResponses_recordAll split: bool.splits)
    also have "\<dots> = uploadedUrls (recordAll (zip batch responses) st)"
      using same by (rule recordAll_uploads_cong)
    finally show ?thesis using Some by simp
  qed
qed

lemma runBatches_console_eq:
  "console (runBatches uf k bs st) = console st @ expectedConsole uf k bs (service st)"
proof (induction bs arbitrary: k st)
  case Nil
  then show ?case by simp
next
  case (Cons b bs)
  obtain outcome svc' where call: "uf (service st) (map j_file b) = (outcome, svc')"
    by (cases "uf (service st) (map j_file b)")
  note step = uploadBatch_call(1,2) [where uf = uf and st = st and batch = b and i = "k * BATCH_SIZE", OF call]
  from step Cons.IH [of "Suc k" "uploadBatch uf (k * BATCH_SIZE) b st"] call
  show ?case by (simp add: BATCH_SIZE_def)
qed

lemma runBatches_uploads_eq:
  "uploadedUrls (runBatches uf k bs st)
   = uploadedUrls (recordAll (settlements uf bs (service st)) st)"
proof (induction bs arbitrary: k st)
  case Nil
  then show ?case by (simp add: recordAll_def)
next
  case (Cons b bs)
  obtain outcome svc' where call: "uf (service st) (map j_file b) = (outcome, svc')"
    by (cases "uf (service st) (map j_file b)")
  let ?now = "case outcome of None \<Rightarrow> [] | Some responses \<Rightarrow> zip b responses"
  let ?st1 = "uploadBatch uf (k * BATCH_SIZE) b st"
  have split: "settlements uf (b # bs) (service st) = ?now @ settlements uf bs svc'"
    using call by (cases outcome) simp_all
  have "uploadedUrls (runBatches uf k (b # bs) st)
      = uploadedUrls (recordAll (settlements uf bs (service ?st1)) ?st1)"
    using Cons.IH [of "Suc k" ?st1] by simp
  also have "\<dots> = uploadedUrls (recordAll (settlements uf bs svc') ?st1)"
    using uploadBatch_call(1) [where uf = uf and st = st and batch = b and i = "k * BATCH_SIZE", OF call]
    by simp
  also have "\<dots> = uploadedUrls (recordAll (settlements uf bs svc') (recordAll ?now st))"
    using uploadBatch_call(3) [where uf = uf and st = st and batch = b and i = "k * BATCH_SIZE", OF call]
    by (rule recordAll_uploads_cong)
  also have "\<dots> = uploadedUrls (recordAll (settlements uf (b # bs) (service st)) st)"
    by (simp only: split recordAll_append)
  finally show ?case .
qed

lemma runBatches_calls:
  "snd (service (runBatches (logged uf) k bs st)) = snd (service st) @ map (map j_file) bs"
proof (induction bs arbitrary: k st)
  case Nil
  then show ?case by simp
next
  case (Cons b bs)
  obtain outcome svc' where call: "uf (fst (service st)) (map j_file b) = (outcome, svc')"
    by (cases "uf (fst (service st)) (map j_file b)")
  then have lcall: "logged uf (service st) (map j_file b)
      = (outcome, (svc', snd (service st) @ [map j_file b]))"
    by (simp add: logged_def)
  from uploadBatch_call(1) [where uf = "logged uf" and st = st and batch = b and i = "k * BATCH_SIZE", OF lcall]
    Cons.IH [of "Suc k" "uploadBatch (logged uf) (k * BATCH_SIZE) b st"]
  show ?case by simp
qed

lemma uploadAll_runBatches:
  "uploadAll uf q svc
   = runBatches uf 0 (batches q) \<lparr>uploadedUrls = Map.empty, console = [], service = svc\<rparr>"
  using uploadLoop_runBatches [of 0 0 uf q] by (simp add: uploadAll_def)

subsection \<open>The variant generator\<close>

lemma generateVariants_other:
  "generateVariants lib join input osd rel fn sizes files acc = (files', Some variants)
   \<Longrightarrow> k \<notin> fst ` set sizes \<Longrightarrow> obj_get variants k = obj_get acc k"
proof (induction sizes arbitrary: files acc)
  case Nil
  then show ?case by simp
next
  case (Cons p sizes)
  obtain sizeName width where p: "p = (sizeName, width)" by (cases p)
  from Cons.prems(1) p obtain out where out: "sh_resize lib width True input = Some out"
    by (auto simp: Let_def split: option.splits)
  with Cons.prems(1) p have "generateVariants lib join input osd rel fn sizes
      (files(join osd (fn @ ''-'' @ sizeName @ ''.webp'') \<mapsto> out))
      (obj_set sizeName
         \<lparr>v_width = or0 (sh_width lib out), v_height = or0 (sh_height lib out),
          v_relativePath = Some (join rel (fn @ ''-'' @ sizeName @ ''.webp'')), v_url = None\<rparr> acc)
      = (files', Some variants)"
    by (simp add: Let_def)
  from Cons.IH [OF this] Cons.prems(2) p show ?case
    by (simp add: obj_get_obj_set)
qed

lemma generateVariants_get:
  "generateVariants lib join input osd rel fn sizes files acc = (files', Some variants)
   \<Longrightarrow> distinct (map fst sizes) \<Longrightarrow> (k, w) \<in> set sizes
   \<Longrightarrow> \<exists>out. sh_resize lib w True input = Some out
         \<and> obj_get variants k
             = Some \<lparr>v_width = or0 (sh_width lib out), v_height = or0 (sh_height lib out),
                     v_relativePath = Some (join rel (fn @ ''-'' @ k @ ''.webp'')), v_url = None\<rparr>"
proof (induction sizes arbitrary: files acc)
  case Nil
  then show ?case by simp
next
  case (Cons p sizes)
  obtain sizeName width where p: "p = (sizeName, width)" by (cases p)
  from Cons.prems(1) p obtain out where out: "sh_resize lib width True input = Some out"
    by (auto simp: Let_def split: option.splits)
  with Cons.prems(1) p have rest: "generateVariants lib join input osd rel fn sizes
      (files(join osd (fn @ ''-'' @ sizeName @ ''.webp'') \<mapsto> out))
      (obj_set sizeName
         \<lparr>v_width = or0 (sh_width lib out), v_height = or0 (sh_height lib out),
          v_relativePath = Some (join rel (fn @ ''-'' @ sizeName @ ''.webp'')), v_url = None\<rparr> acc)
      = (files', Some variants)"
    by (simp add: Let_def)
  show ?case
  proof (cases "(k, w) = p")
    case True
    with p Cons.prems(2) have "k \<notin> fst ` set sizes" by auto
    from generateVariants_other [OF rest this] True p out show ?thesis
      by (simp add: obj_get_obj_set)
  next
    case False
    with Cons.prems(3) have "(k, w) \<in> set sizes" by simp
    moreover from Cons.prems(2) have "distinct (map fst sizes)" by simp
    ultimately show ?thesis using Cons.IH [OF rest] by blast
  qed
qed

subsection \<open>Claims about the pipeline\<close>

text \<open>
  C2. The category is the first piece of \<open>relativePathBase\<close> and the time of day the
  second, \<open>Day\<close> when there is none: \<open>Ceremony/Afternoon\<close> gives \<open>Ceremony\<close> and
  \<open>Afternoon\<close>, \<open>Portraits\<close> gives \<open>Portraits\<close> and \<open>Day\<close>. For the empty path the
  code gives the empty category, not \<open>Uncategorized\<close>: the split of the empty string
  has one (empty) piece, so the default of the code is never used.
\<close>

theorem category_time_inference:
  "manifestEntry CHR ''/'' (ex_meta ''Ceremony/Afternoon'') (Some ex_desktop_only)
     = Inr (Some \<lparr>p_id = ''kd'', p_category = ''Ceremony'', p_timeOfDay = ''Afternoon'',
          p_blurDataUrl = ''data:image/jpeg;base64,AAAA'',
          p_variants = [(''desktop'', \<lparr>v_width = 1920, v_height = 1280, v_relativePath = None,
                 v_url = Some ''https://cdn/d''\<rparr>)],
          p_url = ''https://cdn/d'', p_width = 1920, p_height = 1280\<rparr>)
   \<and> manifestEntry CHR ''/'' (ex_meta ''Portraits'') (Some ex_desktop_only)
     = Inr (Some \<lparr>p_id = ''kd'', p_category = ''Portraits'', p_timeOfDay = ''Day'',
          p_blurDataUrl = ''data:image/jpeg;base64,AAAA'',
          p_variants = [(''desktop'', \<lparr>v_width = 1920, v_height = 1280, v_relativePath = None,
                 v_url = Some ''https://cdn/d''\<rparr>)],
          p_url = ''https://cdn/d'', p_width = 1920, p_height = 1280\<rparr>)
   \<and> manifestEntry CHR ''/'' (ex_meta []) (Some ex_desktop_only)
     = Inr (Some \<lparr>p_id = ''kd'', p_category = [], p_timeOfDay = ''Day'',
          p_blurDataUrl = ''data:image/jpeg;base64,AAAA'',
          p_variants = [(''desktop'', \<lparr>v_width = 1920, v_height = 1280, v_relativePath = None,
                 v_url = Some ''https://cdn/d''\<rparr>)],
          p_url = ''https://cdn/d'', p_width = 1920, p_height = 1280\<rparr>)"
  by (simp add: manifestEntry_def ex_meta_def ex_variants_def ex_desktop_only_def entries_def
      obj_keys_def obj_get_def defaultVariantKey_def)

text \<open>
  C3. The manifest consists of what the callback pushes for the photos that have an
  upload record, in the order of the metadata list; for a photo without an upload
  record the callback returns at once and pushes nothing.
\<close>

theorem zero_upload_drop:
  assumes "constructManifest sep metadataList up = Inr manifest"
  shows "manifest = concat (map (pushed sep up) (filter (hasUploads up) (enumerate 0 metadataList)))
     \<and> (\<forall>i < length metadataList. up i = None \<longrightarrow>
           manifestEntry sep (metadataList ! i) (up i) = Inr None
           \<and> pushed sep up (i, metadataList ! i) = [])"
proof -
  from assms have "manifest = concat (map (pushed sep up) (enumerate 0 metadataList))"
    by (rule constructManifest_eq)
  then have "manifest = concat (map (pushed sep up) (filter (hasUploads up) (enumerate 0 metadataList)))"
    by (simp add: concat_pushed_filter)
  moreover have "\<forall>i < length metadataList. up i = None \<longrightarrow>
           manifestEntry sep (metadataList ! i) (up i) = Inr None
           \<and> pushed sep up (i, metadataList ! i) = []"
    by (simp add: pushed_None manifestEntry_def)
  ultimately show ?thesis by blast
qed

theorem zero_upload_drop_witness:
  "constructManifest CHR ''/'' [ex_meta ''A'', ex_meta ''B/C''] ex_uploads
     = Inr [\<lparr>p_id = ''kt'', p_category = ''B'', p_timeOfDay = ''C'',
             p_blurDataUrl = ''data:image/jpeg;base64,AAAA'',
             p_variants = [(''tablet'', \<lparr>v_width = 1280, v_height = 853, v_relativePath = None,
                                       v_url = Some ''https://cdn/t''\<rparr>)],
             p_url = ''https://cdn/t'', p_width = 1280, p_height = 853\<rparr>]
   \<and> manifestEntry CHR ''/'' ([ex_meta ''A'', ex_meta ''B/C''] ! 0) (ex_uploads 0) = Inr None
   \<and> pushed CHR ''/'' ex_uploads (0, [ex_meta ''A'', ex_meta ''B/C''] ! 0) = []"
proof -
  have run: "constructManifest CHR ''/'' [ex_meta ''A'', ex_meta ''B/C''] ex_uploads
     = Inr [\<lparr>p_id = ''kt'', p_category = ''B'', p_timeOfDay = ''C'',
             p_blurDataUrl = ''data:image/jpeg;base64,AAAA'',
             p_variants = [(''tablet'', \<lparr>v_width = 1280, v_height = 853, v_relativePath = None,
                                       v_url = Some ''https://cdn/t''\<rparr>)],
             p_url = ''https://cdn/t'', p_width = 1280, p_height = 853\<rparr>]"
    by (simp add: constructManifest_def manifestEntry_def ex_meta_def ex_variants_def ex_tablet_only_def
        ex_uploads_def entries_def obj_keys_def obj_get_def defaultVariantKey_def)
  from zero_upload_drop [OF run]
  have "\<forall>i < length [ex_meta ''A'', ex_meta ''B/C'']. ex_uploads i = None \<longrightarrow>
           manifestEntry CHR ''/'' ([ex_meta ''A'', ex_meta ''B/C''] ! i) (ex_uploads i) = Inr None
           \<and> pushed CHR ''/'' ex_uploads (i, [ex_meta ''A'', ex_meta ''B/C''] ! i) = []"
    by blast
  from this [rule_format, of 0] run show ?thesis by (simp add: ex_uploads_def)
qed

text \<open>
  C4 (as amended). For every entry of the manifest, the keys of its variants object
  are among mobile, tablet, desktop and full; the entry comes from a photo with an
  upload record, and each of its keys is a variant of that photo's metadata that has
  an upload in the record; the variant carries the width and height of the metadata
  and the url recorded for the upload (so a non-empty url whenever the recorded url
  is not empty).
\<close>

theorem variant_keys_subset:
  assumes "constructManifest sep metas up = Inr manifest" and "e \<in> set manifest"
  shows "set (obj_keys (p_variants e)) \<subseteq> {''mobile'', ''tablet'', ''desktop'', ''full''}
     \<and> (\<exists>i ups. i < length metas \<and> up i = Some ups
          \<and> (\<forall>k \<in> set (obj_keys (p_variants e)).
                \<exists>u var. obj_get ups k = Some u
                  \<and> obj_get (entries (m_variants (metas ! i))) k = Some var
                  \<and> obj_get (p_variants e) k
                      = Some \<lparr>v_width = v_width var, v_height = v_height var,
                              v_relativePath = None, v_url = Some (u_url u)\<rparr>))"
proof -
  from manifest_entry_source [OF assms] obtain i
    where i: "i < length metas" and me: "manifestEntry sep (metas ! i) (up i) = Inr (Some e)"
    by blast
  from me obtain ups where ups: "up i = Some ups"
    by (cases "up i") (auto simp: manifestEntry_def)
  from me ups have fv: "fillVariants sizeNames (m_variants (metas ! i)) ups [] = Inr (p_variants e)"
    by (simp add: manifestEntry_variants)
  have keys: "set (obj_keys (p_variants e)) = {k \<in> set sizeNames. obj_get ups k \<noteq> None}"
    using fillVariants_keys [OF fv] by (simp add: obj_keys_def)
  have "\<exists>u var. obj_get ups k = Some u
          \<and> obj_get (entries (m_variants (metas ! i))) k = Some var
          \<and> obj_get (p_variants e) k
              = Some \<lparr>v_width = v_width var, v_height = v_height var,
                      v_relativePath = None, v_url = Some (u_url u)\<rparr>"
    if k: "k \<in> set (obj_keys (p_variants e))" for k
  proof -
    from k keys have ks: "k \<in> set sizeNames" and u: "obj_get ups k \<noteq> None" by auto
    from ks have "obj_get (entries (m_variants (metas ! i))) k \<noteq> None"
      by (simp add: obj_get_None_iff entries_keys)
    with u ks fillVariants_get [OF fv, of k] show ?thesis by auto
  qed
  with i ups keys show ?thesis by (auto simp: sizeNames_def)
qed

theorem variant_keys_subset_witness:
  "set (obj_keys (p_variants
       \<lparr>p_id = ''kt'', p_category = ''B'', p_timeOfDay = ''C'',
        p_blurDataUrl = ''data:image/jpeg;base64,AAAA'',
        p_variants = [(''tablet'', \<lparr>v_width = 1280, v_height = 853, v_relativePath = None,
                                  v_url = Some ''https://cdn/t''\<rparr>)],
        p_url = ''https://cdn/t'', p_width = 1280, p_height = 853\<rparr>))
     \<subseteq> {''mobile'', ''tablet'', ''desktop'', ''full''}"
proof -
  have run: "constructManifest CHR ''/'' [ex_meta ''A'', ex_meta ''B/C''] ex_uploads
     = Inr [\<lparr>p_id = ''kt'', p_category = ''B'', p_timeOfDay = ''C'',
             p_blurDataUrl = ''data:image/jpeg;base64,AAAA'',
             p_variants = [(''tablet'', \<lparr>v_width = 1280, v_height = 853, v_relativePath = None,
                                       v_url = Some ''https://cdn/t''\<rparr>)],
             p_url = ''https://cdn/t'', p_width = 1280, p_height = 853\<rparr>]"
    by (simp add: constructManifest_def manifestEntry_def ex_meta_def ex_variants_def ex_tablet_only_def
        ex_uploads_def entries_def obj_keys_def obj_get_def defaultVariantKey_def)
  have mem: "\<lparr>p_id = ''kt'', p_category = ''B'', p_timeOfDay = ''C'',
             p_blurDataUrl = ''data:image/jpeg;base64,AAAA'',
             p_variants = [(''tablet'', \<lparr>v_width = 1280, v_height = 853, v_relativePath = None,
                                       v_url = Some ''https://cdn/t''\<rparr>)],
             p_url = ''https://cdn/t'', p_width = 1280, p_height = 853\<rparr>
       \<in> set [\<lparr>p_id = ''kt'', p_category = ''B'', p_timeOfDay = ''C'',
             p_blurDataUrl = ''data:image/jpeg;base64,AAAA'',
             p_variants = [(''tablet'', \<lparr>v_width = 1280, v_height = 853, v_relativePath = None,
                                       v_url = Some ''https://cdn/t''\<rparr>)],
             p_url = ''https://cdn/t'', p_width = 1280, p_height = 853\<rparr>]"
    by simp
  from variant_keys_subset [OF run mem] show ?thesis by blast
qed

text \<open>
  The claim as stated fails in its last part: the assembler copies the recorded url
  as it is, so an upload recorded with an empty url gives a variant with an empty
  url.
\<close>

theorem variant_empty_url_counterexample:
  "constructManifest CHR ''/'' [ex_meta ''Ceremony'']
       (Map.empty(0 \<mapsto> [(''desktop'', \<lparr>u_url = [], u_key = ''kd''\<rparr>)]))
     = Inr [\<lparr>p_id = ''kd'', p_category = ''Ceremony'', p_timeOfDay = ''Day'',
             p_blurDataUrl = ''data:image/jpeg;base64,AAAA'',
             p_variants = [(''desktop'', \<lparr>v_width = 1920, v_height = 1280, v_relativePath = None,
                                        v_url = Some []\<rparr>)],
             p_url = [], p_width = 1920, p_height = 1280\<rparr>]"
  by (simp add: constructManifest_def manifestEntry_def ex_meta_def ex_variants_def
      entries_def obj_keys_def obj_get_def defaultVariantKey_def)

text \<open>
  C5. For a photo whose upload record is not empty and has only variant names as keys
  (as every record that the batch loop builds, see \<open>main_records_ok\<close>), the callback
  pushes an entry, and the entry's id, url, width and height are the remote key and
  url of the upload, and the width and height of the metadata variant, under the
  first available key in the order desktop, tablet, remaining keys of the record in
  insertion order.
\<close>

theorem default_variant_choice:
  assumes "ups \<noteq> []" and "set (obj_keys ups) \<subseteq> set sizeNames"
  shows "\<exists>k u var e. first_available ups = Some k
     \<and> obj_get ups k = Some u
     \<and> obj_get (entries (m_variants meta)) k = Some var
     \<and> manifestEntry sep meta (Some ups) = Inr (Some e)
     \<and> p_id e = u_key u \<and> p_url e = u_url u
     \<and> p_width e = v_width var \<and> p_height e = v_height var"
proof -
  from defaultVariantKey_present [OF assms(1)] obtain k u
    where k: "defaultVariantKey ups = Some k" and u: "obj_get ups k = Some u" by blast
  from u have "k \<in> set (obj_keys ups)" using obj_get_None_iff [of ups k] by auto
  with assms(2) have ks: "k \<in> set sizeNames" by blast
  then have ne: "k \<noteq> []" by (auto simp: sizeNames_def)
  from ks obtain var where var: "obj_get (entries (m_variants meta)) k = Some var"
    using obj_get_None_iff [of "entries (m_variants meta)" k] by (auto simp: entries_keys)
  from fillVariants_total [of sizeNames "m_variants meta" ups "[]"]
  obtain out where out: "fillVariants sizeNames (m_variants meta) ups [] = Inr out" by auto
  from k u var ne out have "\<exists>e. manifestEntry sep meta (Some ups) = Inr (Some e)
     \<and> p_id e = u_key u \<and> p_url e = u_url u
     \<and> p_width e = v_width var \<and> p_height e = v_height var"
    by (simp add: manifestEntry_def Let_def entries_keys)
  with k u var show ?thesis by (auto simp: defaultVariantKey_first_available)
qed

theorem default_variant_choice_witness:
  "first_available ex_mobile_full = Some ''mobile''
   \<and> (\<exists>k u var e. first_available ex_mobile_full = Some k
     \<and> obj_get ex_mobile_full k = Some u
     \<and> obj_get (entries (m_variants (ex_meta ''Portraits''))) k = Some var
     \<and> manifestEntry CHR ''/'' (ex_meta ''Portraits'') (Some ex_mobile_full) = Inr (Some e)
     \<and> p_id e = u_key u \<and> p_url e = u_url u
     \<and> p_width e = v_width var \<and> p_height e = v_height var)
   \<and> manifestEntry CHR ''/'' (ex_meta ''Portraits'') (Some ex_mobile_full)
     = Inr (Some \<lparr>p_id = ''km'', p_category = ''Portraits'', p_timeOfDay = ''Day'',
          p_blurDataUrl = ''data:image/jpeg;base64,AAAA'',
          p_variants = [(''mobile'', \<lparr>v_width = 640, v_height = 427, v_relativePath = None,
                                    v_url = Some ''https://cdn/m''\<rparr>),
                        (''full'', \<lparr>v_width = 3000, v_height = 2000, v_relativePath = None,
                                  v_url = Some ''https://cdn/f''\<rparr>)],
          p_url = ''https://cdn/m'', p_width = 640, p_height = 427\<rparr>)"
proof -
  have h1: "ex_mobile_full \<noteq> []" by (simp add: ex_mobile_full_def)
  have h2: "set (obj_keys ex_mobile_full) \<subseteq> set sizeNames"
    by (simp add: ex_mobile_full_def obj_keys_def sizeNames_def)
  have first: "first_available ex_mobile_full = Some ''mobile''"
    by (simp add: first_available_def preference_order_def ex_mobile_full_def obj_keys_def obj_get_def)
  have run: "manifestEntry CHR ''/'' (ex_meta ''Portraits'') (Some ex_mobile_full)
     = Inr (Some \<lparr>p_id = ''km'', p_category = ''Portraits'', p_timeOfDay = ''Day'',
          p_blurDataUrl = ''data:image/jpeg;base64,AAAA'',
          p_variants = [(''mobile'', \<lparr>v_width = 640, v_height = 427, v_relativePath = None,
                                    v_url = Some ''https://cdn/m''\<rparr>),
                        (''full'', \<lparr>v_width = 3000, v_height = 2000, v_relativePath = None,
                                  v_url = Some ''https://cdn/f''\<rparr>)],
          p_url = ''https://cdn/m'', p_width = 640, p_height = 427\<rparr>)"
    by (simp add: manifestEntry_def ex_meta_def ex_variants_def ex_mobile_full_def entries_def
        obj_keys_def obj_get_def defaultVariantKey_def)
  from default_variant_choice [OF h1 h2, of "ex_meta ''Portraits''" "CHR ''/''"] first run
  show ?thesis by blast
qed

text \<open>
  C8. The queue is cut into consecutive batches of five tasks, the last one possibly
  shorter and none empty; their number is the queue length divided by five, rounded
  up, so twelve tasks make three batches. The calls that reach the upload service
  are exactly these batches, one call per batch, in order. The batches run strictly
  one after the other: the console shows, for each batch, its announcement and then
  the settlement of its tasks before the announcement of the next batch, the call
  for a batch being made in the state the service reached with the previous call;
  and the upload record at the end is the one obtained by recording the settled
  tasks batch after batch.
\<close>

theorem batch_sequencing:
  "concat (batches q) = q
   \<and> length (batches q) = (length q + 4) div 5
   \<and> (\<forall>k < length (batches q).
        length (batches q ! k) = min 5 (length q - 5 * k) \<and> 0 < length (batches q ! k))
   \<and> (length q = 12 \<longrightarrow> length (batches q) = 3)
   \<and> snd (service (uploadAll (logged uf) q (svc, []))) = map (map j_file) (batches q)
   \<and> console (uploadAll uf q svc) = expectedConsole uf 0 (batches q) svc
   \<and> uploadedUrls (uploadAll uf q svc)
       = uploadedUrls (recordAll (settlements uf (batches q) svc)
                         \<lparr>uploadedUrls = Map.empty, console = [], service = svc\<rparr>)"
proof -
  have lens: "\<forall>k < length (batches q).
        length (batches q ! k) = min 5 (length q - 5 * k) \<and> 0 < length (batches q ! k)"
    using batches_nth_length by blast
  have twelve: "length q = 12 \<longrightarrow> length (batches q) = 3"
    by (simp add: batches_length)
  have calls: "snd (service (uploadAll (logged uf) q (svc, []))) = map (map j_file) (batches q)"
    by (simp add: uploadAll_runBatches runBatches_calls)
  have lines: "console (uploadAll uf q svc) = expectedConsole uf 0 (batches q) svc"
    by (simp add: uploadAll_runBatches runBatches_console_eq)
  have records: "uploadedUrls (uploadAll uf q svc)
       = uploadedUrls (recordAll (settlements uf (batches q) svc)
                         \<lparr>uploadedUrls = Map.empty, console = [], service = svc\<rparr>)"
    using runBatches_uploads_eq [of uf 0 "batches q" "\<lparr>uploadedUrls = Map.empty, console = [], service = svc\<rparr>"]
    by (simp add: uploadAll_runBatches)
  show ?thesis
    by (intro conjI) (rule batches_concat batches_length lens twelve calls lines records)+
qed

theorem batch_sequencing_witness:
  "length ex_queue = 12
   \<and> length (batches ex_queue) = 3
   \<and> length (batches ex_queue ! 0) = 5 \<and> length (batches ex_queue ! 1) = 5 \<and> length (batches ex_queue ! 2) = 2
   \<and> snd (service (uploadAll (logged ex_service) ex_queue (0, [])))
       = [map (j_file \<circ> ex_job) [(0, ''mobile''), (0, ''tablet''), (0, ''desktop''), (0, ''full''), (1, ''mobile'')],
          map (j_file \<circ> ex_job) [(1, ''tablet''), (1, ''desktop''), (1, ''full''), (2, ''mobile''), (2, ''tablet'')],
          map (j_file \<circ> ex_job) [(2, ''desktop''), (2, ''full'')]]
   \<and> console (uploadAll ex_service ex_queue 0)
       = [Uploading 1 5,
          UploadedLine ''mobile'' ''https://cdn/mobile'', UploadedLine ''tablet'' ''https://cdn/tablet'',
          UploadedLine ''desktop'' ''https://cdn/desktop'', UploadedLine ''full'' ''https://cdn/full'',
          UploadedLine ''mobile'' ''https://cdn/mobile'',
          Uploading 2 5, BatchFailedLine,
          Uploading 3 2,
          UploadedLine ''desktop'' ''https://cdn/desktop'', UploadedLine ''full'' ''https://cdn/full'']
   \<and> uploadedUrls (uploadAll ex_service ex_queue 0) 1
       = Some [(''mobile'', \<lparr>u_url = ''https://cdn/mobile'', u_key = ''key-mobile''\<rparr>)]"
proof -
  have len: "length ex_queue = 12"
    by (simp add: ex_queue_def sizeNames_def)
  have bq: "batches ex_queue
      = [map ex_job [(0, ''mobile''), (0, ''tablet''), (0, ''desktop''), (0, ''full''), (1, ''mobile'')],
         map ex_job [(1, ''tablet''), (1, ''desktop''), (1, ''full''), (2, ''mobile''), (2, ''tablet'')],
         map ex_job [(2, ''desktop''), (2, ''full'')]]"
    by (simp add: batches_def BATCH_SIZE_def ex_queue_def sizeNames_def upt_rec)
  note seq = batch_sequencing [of ex_queue ex_service 0]
  from seq len have n: "length (batches ex_queue) = 3" by blast
  from seq have all: "\<forall>k < length (batches ex_queue).
        length (batches ex_queue ! k) = min 5 (length ex_queue - 5 * k) \<and> 0 < length (batches ex_queue ! k)"
    by blast
  from all [rule_format, of 0] all [rule_format, of 1] all [rule_format, of 2] n len
  have lens: "length (batches ex_queue ! 0) = 5 \<and> length (batches ex_queue ! 1) = 5
      \<and> length (batches ex_queue ! 2) = 2"
    by simp
  from seq have "snd (service (uploadAll (logged ex_service) ex_queue (0, [])))
      = map (map j_file) (batches ex_queue)" by blast
  then have calls: "snd (service (uploadAll (logged ex_service) ex_queue (0, [])))
       = [map (j_file \<circ> ex_job) [(0, ''mobile''), (0, ''tablet''), (0, ''desktop''), (0, ''full''), (1, ''mobile'')],
          map (j_file \<circ> ex_job) [(1, ''tablet''), (1, ''desktop''), (1, ''full''), (2, ''mobile''), (2, ''tablet'')],
          map (j_file \<circ> ex_job) [(2, ''desktop''), (2, ''full'')]]"
    by (simp add: bq)
  from seq have "console (uploadAll ex_service ex_queue 0)
      = expectedConsole ex_service 0 (batches ex_queue) 0" by blast
  then have lines: "console (uploadAll ex_service ex_queue 0)
       = [Uploading 1 5,
          UploadedLine ''mobile'' ''https://cdn/mobile'', UploadedLine ''tablet'' ''https://cdn/tablet'',
          UploadedLine ''desktop'' ''https://cdn/desktop'', UploadedLine ''full'' ''https://cdn/full'',
          UploadedLine ''mobile'' ''https://cdn/mobile'',
          Uploading 2 5, BatchFailedLine,
          Uploading 3 2,
          UploadedLine ''desktop'' ''https://cdn/desktop'', UploadedLine ''full'' ''https://cdn/full'']"
    by (simp add: bq ex_service_def ex_job_def settleLines_def settleLine_def)
  from seq have "uploadedUrls (uploadAll ex_service ex_queue 0)
      = uploadedUrls (recordAll (settlements ex_service (batches ex_queue) 0)
                        \<lparr>uploadedUrls = Map.empty, console = [], service = 0 :: nat\<rparr>)" by blast
  then have records: "uploadedUrls (uploadAll ex_service ex_queue 0) 1
       = Some [(''mobile'', \<lparr>u_url = ''https://cdn/mobile'', u_key = ''key-mobile''\<rparr>)]"
    by (simp add: bq ex_service_def ex_job_def recordAll_def recordResponse_def)
  from len n lens calls lines records show ?thesis by blast
qed

text \<open>
  C9. Let the image library honour \<open>withoutEnlargement\<close>: resizing an image to a
  width that is not smaller than the image's own width, with the flag set, gives an
  image of the same width. Then for every source image of native width \<open>n\<close> and every
  size of \<open>SIZES\<close> whose target width is at least \<open>n\<close>, the variant that the loop
  records has width \<open>n\<close>; and for every size the recorded width and height are those
  read back from the written output (or zero), not the requested width.
\<close>

theorem no_upscaling:
  assumes contract: "\<forall>w img out n. sh_resize lib w True img = Some out \<and> sh_width lib img = Some n \<and> n \<le> w
                       \<longrightarrow> sh_width lib out = Some n"
    and native: "sh_width lib inputBuffer = Some n"
    and run: "generateVariants lib join inputBuffer outputSubDir relativePath fileNameNoExt SIZES files []
                = (files', Some variants)"
    and target: "(sizeName, w) \<in> set SIZES"
  shows "\<exists>out v. sh_resize lib w True inputBuffer = Some out
           \<and> obj_get variants sizeName = Some v
           \<and> v_width v = or0 (sh_width lib out) \<and> v_height v = or0 (sh_height lib out)
           \<and> (n \<le> w \<longrightarrow> v_width v = n)"
proof -
  have "distinct (map fst SIZES)" by (simp add: SIZES_def)
  from generateVariants_get [OF run this target] obtain out where
    out: "sh_resize lib w True inputBuffer = Some out" and
    v: "obj_get variants sizeName
          = Some \<lparr>v_width = or0 (sh_width lib out), v_height = or0 (sh_height lib out),
                  v_relativePath = Some (join relativePath (fileNameNoExt @ ''-'' @ sizeName @ ''.webp'')),
                  v_url = None\<rparr>"
    by blast
  have "or0 (sh_width lib out) = n" if "n \<le> w"
  proof -
    from contract out native that have "sh_width lib out = Some n" by blast
    then show ?thesis by (simp add: or0_def)
  qed
  with out v show ?thesis by simp
qed

theorem no_upscaling_witness:
  "generateVariants ex_sharp (\<lambda>a b. a @ ''/'' @ b) (3000, 2000) ''out/Reception'' ''Reception'' ''a'' SIZES Map.empty []
     = (Map.empty(''out/Reception/a-mobile.webp'' \<mapsto> (640, 427),
                  ''out/Reception/a-tablet.webp'' \<mapsto> (1280, 853),
                  ''out/Reception/a-desktop.webp'' \<mapsto> (1920, 1280),
                  ''out/Reception/a-full.webp'' \<mapsto> (3000, 2000)),
        Some [(''mobile'', \<lparr>v_width = 640, v_height = 427, v_relativePath = Some ''Reception/a-mobile.webp'', v_url = None\<rparr>),
              (''tablet'', \<lparr>v_width = 1280, v_height = 853, v_relativePath = Some ''Reception/a-tablet.webp'', v_url = None\<rparr>),
              (''desktop'', \<lparr>v_width = 1920, v_height = 1280, v_relativePath = Some ''Reception/a-desktop.webp'', v_url = None\<rparr>),
              (''full'', \<lparr>v_width = 3000, v_height = 2000, v_relativePath = Some ''Reception/a-full.webp'', v_url = None\<rparr>)])
   \<and> (\<exists>out v. sh_resize ex_sharp 3840 True (3000, 2000) = Some out
         \<and> obj_get [(''mobile'', \<lparr>v_width = 640, v_height = 427, v_relativePath = Some ''Reception/a-mobile.webp'', v_url = None\<rparr>),
              (''tablet'', \<lparr>v_width = 1280, v_height = 853, v_relativePath = Some ''Reception/a-tablet.webp'', v_url = None\<rparr>),
              (''desktop'', \<lparr>v_width = 1920, v_height = 1280, v_relativePath = Some ''Reception/a-desktop.webp'', v_url = None\<rparr>),
              (''full'', \<lparr>v_width = 3000, v_height = 2000, v_relativePath = Some ''Reception/a-full.webp'', v_url = None\<rparr>)]
              ''full'' = Some v
         \<and> v_width v = 3000)"
proof -
  have contract: "\<forall>w img out n. sh_resize ex_sharp w True img = Some out \<and> sh_width ex_sharp img = Some n \<and> n \<le> w
                       \<longrightarrow> sh_width ex_sharp out = Some n"
    by (auto simp: ex_sharp_def)
  have native: "sh_width ex_sharp (3000, 2000) = Some 3000"
    by (simp add: ex_sharp_def)
  have run: "generateVariants ex_sharp (\<lambda>a b. a @ ''/'' @ b) (3000, 2000) ''out/Reception'' ''Reception'' ''a'' SIZES Map.empty []
     = (Map.empty(''out/Reception/a-mobile.webp'' \<mapsto> (640, 427),
                  ''out/Reception/a-tablet.webp'' \<mapsto> (1280, 853),
                  ''out/Reception/a-desktop.webp'' \<mapsto> (1920, 1280),
                  ''out/Reception/a-full.webp'' \<mapsto> (3000, 2000)),
        Some [(''mobile'', \<lparr>v_width = 640, v_height = 427, v_relativePath = Some ''Reception/a-mobile.webp'', v_url = None\<rparr>),
              (''tablet'', \<lparr>v_width = 1280, v_height = 853, v_relativePath = Some ''Reception/a-tablet.webp'', v_url = None\<rparr>),
              (''desktop'', \<lparr>v_width = 1920, v_height = 1280, v_relativePath = Some ''Reception/a-desktop.webp'', v_url = None\<rparr>),
              (''full'', \<lparr>v_width = 3000, v_height = 2000, v_relativePath = Some ''Reception/a-full.webp'', v_url = None\<rparr>)])"
    by (simp add: SIZES_def ex_sharp_def or0_def Let_def)
  have target: "(''full'', 3840) \<in> set SIZES"
    by (simp add: SIZES_def)
  from no_upscaling [OF contract native run target] run show ?thesis
    by auto
qed

end
